theory Spec2Isabelle
  imports Complex_Main "HOL-Library.Char_ord" "HOL-Library.List_Lexorder" "HOL-Library.Log_Nat"
begin

section \<open>Doctor assignment and queue numbering\<close>

text \<open>
  A shallow embedding of \<^verbatim>\<open>src/services/doctorAssignment.js\<close> and of the queue-number
  hook of \<^verbatim>\<open>src/models/Queue.js\<close>. JavaScript strings are modelled as \<^typ>\<open>string\<close>,
  object ids as strings compared lexicographically, timestamps as milliseconds since the
  epoch, and the numbers of the score arithmetic as IEEE 754 doubles.
\<close>

subsection \<open>Strings\<close>

text \<open>
  \<^verbatim>\<open>String.prototype.toLowerCase\<close>, on the ASCII letters; every other character is left
  as it is.
\<close>

definition lowerChar :: "char \<Rightarrow> char" where
  "lowerChar c =
     (let n = (of_char c :: nat)
      in if 65 \<le> n \<and> n \<le> 90 then char_of (n + 32) else c)"

definition toLowerCase :: "string \<Rightarrow> string" where
  "toLowerCase s = map lowerChar s"

fun startsWith :: "string \<Rightarrow> string \<Rightarrow> bool" where
  "startsWith s [] = True"
| "startsWith [] (p # ps) = False"
| "startsWith (c # cs) (p # ps) = (c = p \<and> startsWith cs ps)"

text \<open>\<^verbatim>\<open>String.prototype.includes\<close>: the needle occurs at some position of the text.\<close>

fun includesStr :: "string \<Rightarrow> string \<Rightarrow> bool" where
  "includesStr [] sub = (sub = [])"
| "includesStr (c # cs) sub = (startsWith (c # cs) sub \<or> includesStr cs sub)"

subsection \<open>The knowledge base\<close>

datatype priority = Emergency | High | Medium | Low

datatype confidence = ConfHigh | ConfMedium | ConfLow

text \<open>
  \<^verbatim>\<open>SYMPTOM_SPECIALIZATION_MAP\<close>, as an association list in the order of the object
  literal, which is the order \<^verbatim>\<open>Object.keys\<close> walks it in. Its keys are distinct.
\<close>

definition SYMPTOM_SPECIALIZATION_MAP :: "(string \<times> string list) list" where
  "SYMPTOM_SPECIALIZATION_MAP =
    [(''chest pain'', [''cardiology'', ''emergency'']),
     (''heart palpitations'', [''cardiology'']),
     (''shortness of breath'', [''cardiology'', ''pulmonology'']),
     (''irregular heartbeat'', [''cardiology'']),
     (''chest tightness'', [''cardiology'', ''emergency'']),
     (''heart attack'', [''emergency'', ''cardiology'']),
     (''high blood pressure'', [''cardiology'', ''internal-medicine'']),
     (''coronary'', [''cardiology'']),
     (''skin rash'', [''dermatology'']),
     (''acne'', [''dermatology'']),
     (''eczema'', [''dermatology'']),
     (''psoriasis'', [''dermatology'']),
     (''moles'', [''dermatology'']),
     (''skin cancer'', [''dermatology'', ''oncology'']),
     (''dermatitis'', [''dermatology'']),
     (''hives'', [''dermatology'', ''allergy'']),
     (''bone pain'', [''orthopedics'']),
     (''joint pain'', [''orthopedics'', ''rheumatology'']),
     (''back pain'', [''orthopedics'', ''neurology'']),
     (''fracture'', [''orthopedics'', ''emergency'']),
     (''arthritis'', [''rheumatology'', ''orthopedics'']),
     (''knee pain'', [''orthopedics'']),
     (''shoulder pain'', [''orthopedics'']),
     (''hip pain'', [''orthopedics'']),
     (''muscle pain'', [''orthopedics'', ''sports-medicine'']),
     (''headache'', [''neurology'', ''internal-medicine'']),
     (''migraine'', [''neurology'']),
     (''seizure'', [''neurology'', ''emergency'']),
     (''dizziness'', [''neurology'', ''ent'']),
     (''memory loss'', [''neurology'', ''psychiatry'']),
     (''stroke'', [''emergency'', ''neurology'']),
     (''tremor'', [''neurology'']),
     (''numbness'', [''neurology'']),
     (''stomach pain'', [''gastroenterology'', ''internal-medicine'']),
     (''nausea'', [''gastroenterology'', ''internal-medicine'']),
     (''vomiting'', [''gastroenterology'', ''emergency'']),
     (''diarrhea'', [''gastroenterology'', ''infectious-disease'']),
     (''constipation'', [''gastroenterology'', ''internal-medicine'']),
     (''heartburn'', [''gastroenterology'']),
     (''acid reflux'', [''gastroenterology'']),
     (''bloating'', [''gastroenterology'']),
     (''cough'', [''pulmonology'', ''internal-medicine'']),
     (''asthma'', [''pulmonology'', ''allergy'']),
     (''bronchitis'', [''pulmonology'']),
     (''pneumonia'', [''pulmonology'', ''emergency'']),
     (''lung pain'', [''pulmonology'']),
     (''breathing difficulty'', [''pulmonology'', ''emergency'']),
     (''ear pain'', [''ent'']),
     (''hearing loss'', [''ent'']),
     (''sore throat'', [''ent'', ''internal-medicine'']),
     (''tonsillitis'', [''ent'']),
     (''sinusitis'', [''ent'']),
     (''nasal congestion'', [''ent'', ''allergy'']),
     (''voice hoarseness'', [''ent'']),
     (''eye pain'', [''ophthalmology'']),
     (''vision problems'', [''ophthalmology'']),
     (''blurred vision'', [''ophthalmology'', ''neurology'']),
     (''eye infection'', [''ophthalmology'']),
     (''glaucoma'', [''ophthalmology'']),
     (''cataracts'', [''ophthalmology'']),
     (''depression'', [''psychiatry'']),
     (''anxiety'', [''psychiatry'']),
     (''panic attacks'', [''psychiatry'', ''cardiology'']),
     (''insomnia'', [''psychiatry'', ''neurology'']),
     (''mood swings'', [''psychiatry'']),
     (''bipolar'', [''psychiatry'']),
     (''severe pain'', [''emergency'']),
     (''unconscious'', [''emergency'']),
     (''bleeding'', [''emergency'', ''surgery'']),
     (''poisoning'', [''emergency'']),
     (''overdose'', [''emergency'']),
     (''trauma'', [''emergency'', ''surgery'']),
     (''burns'', [''emergency'', ''plastic-surgery'']),
     (''fever'', [''internal-medicine'', ''infectious-disease'']),
     (''fatigue'', [''internal-medicine'']),
     (''weight loss'', [''internal-medicine'', ''oncology'']),
     (''weight gain'', [''internal-medicine'', ''endocrinology'']),
     (''diabetes'', [''endocrinology'', ''internal-medicine'']),
     (''hypertension'', [''cardiology'', ''internal-medicine'']),
     (''infection'', [''infectious-disease'', ''internal-medicine'']),
     (''menstrual problems'', [''gynecology'']),
     (''pregnancy'', [''obstetrics'', ''gynecology'']),
     (''pelvic pain'', [''gynecology'']),
     (''breast pain'', [''gynecology'', ''oncology'']),
     (''urinary problems'', [''urology'']),
     (''kidney stones'', [''urology'', ''emergency'']),
     (''prostate'', [''urology'']),
     (''bladder'', [''urology''])]"

text \<open>\<^verbatim>\<open>SYMPTOM_PRIORITY\<close>, in the order \<^verbatim>\<open>Object.entries\<close> walks it in.\<close>

definition SYMPTOM_PRIORITY :: "(priority \<times> string list) list" where
  "SYMPTOM_PRIORITY =
    [(Emergency, [''heart attack'', ''stroke'', ''seizure'', ''unconscious'', ''severe bleeding'',
                  ''poisoning'', ''overdose'', ''trauma'', ''severe pain'', ''breathing difficulty'',
                  ''chest pain'']),
     (High, [''fracture'', ''pneumonia'', ''severe infection'', ''high fever'', ''vomiting blood'',
             ''severe burns'']),
     (Medium, [''fever'', ''infection'', ''persistent pain'', ''chronic conditions'']),
     (Low, [''routine checkup'', ''minor symptoms'', ''follow-up''])]"

subsection \<open>analyzeSymptoms\<close>

record analysis =
  specializations :: "string list"
  priority :: priority
  matchedSymptoms :: "string list"
  confidence :: confidence

text \<open>
  \<^verbatim>\<open>Set.prototype.add\<close> on a set kept in insertion order, which is the order
  \<^verbatim>\<open>Array.from\<close> reads it back in.
\<close>

definition setAdd :: "string list \<Rightarrow> string \<Rightarrow> string list" where
  "setAdd acc spec = (if spec \<in> set acc then acc else acc @ [spec])"

text \<open>
  The \<^verbatim>\<open>forEach\<close> over the keys of the table; the state is the pair of
  \<^verbatim>\<open>matchedSymptoms\<close> and \<^verbatim>\<open>matchedSpecializations\<close>.
\<close>

fun matchSymptoms ::
  "string \<Rightarrow> (string \<times> string list) list \<Rightarrow> string list \<times> string list
     \<Rightarrow> string list \<times> string list" where
  "matchSymptoms symptomsLower [] st = st"
| "matchSymptoms symptomsLower ((symptom, specs) # rest) (matched, matchedSpecs) =
     (if includesStr symptomsLower symptom
      then matchSymptoms symptomsLower rest (matched @ [symptom], foldl setAdd matchedSpecs specs)
      else matchSymptoms symptomsLower rest (matched, matchedSpecs))"

text \<open>The inner loop over the keywords of one level, left at the first keyword found.\<close>

fun scanKeywords :: "string \<Rightarrow> priority \<Rightarrow> string list \<Rightarrow> priority \<Rightarrow> priority" where
  "scanKeywords symptomsLower priorityLevel [] p = p"
| "scanKeywords symptomsLower priorityLevel (keyword # keywords) p =
     (if includesStr symptomsLower keyword then priorityLevel
      else scanKeywords symptomsLower priorityLevel keywords p)"

text \<open>The outer loop over the levels, left as soon as the priority is no longer low.\<close>

fun determinePriority ::
  "string \<Rightarrow> (priority \<times> string list) list \<Rightarrow> priority \<Rightarrow> priority" where
  "determinePriority symptomsLower [] p = p"
| "determinePriority symptomsLower ((priorityLevel, keywords) # rest) p =
     (let p' = scanKeywords symptomsLower priorityLevel keywords p
      in if p' \<noteq> Low then p' else determinePriority symptomsLower rest p')"

definition analyzeSymptoms :: "string \<Rightarrow> analysis" where
  "analyzeSymptoms symptoms =
     (let symptomsLower = toLowerCase symptoms;
          (matched, matchedSpecs) = matchSymptoms symptomsLower SYMPTOM_SPECIALIZATION_MAP ([], []);
          p = determinePriority symptomsLower SYMPTOM_PRIORITY Low;
          matchedSpecs' = (if length matchedSpecs = 0 then setAdd matchedSpecs ''internal-medicine''
                           else matchedSpecs)
      in \<lparr> specializations = matchedSpecs',
           priority = p,
           matchedSymptoms = matched,
           confidence = (if length matched > 0 then ConfHigh else ConfLow) \<rparr>)"

subsection \<open>Documents and the database\<close>

type_synonym objectId = string

text \<open>A \<^verbatim>\<open>Date\<close>, in milliseconds since the epoch.\<close>

type_synonym date = int

datatype role = RolePatient | RoleReception | RoleDoctor | RoleAdmin

datatype queueStatus = Waiting | InProgress | Completed | Cancelled | NoShow

datatype appointmentStatus =
  Scheduled | Confirmed | ApptInProgress | ApptCompleted | ApptCancelled | ApptNoShow

text \<open>
  The fields of the three schemas that the assignment service and the queue-number hook
  read or write. A path that the schema does not require may be absent.
\<close>

record user =
  userId :: objectId
  role :: role
  isActive :: bool
  department :: "string option"
  userSpecializations :: "string list"

record queueDoc =
  patientId :: objectId
  queueNumber :: int
  checkedInBy :: "objectId option"
  checkedInAt :: date
  queueStatus :: queueStatus
  queuePriority :: priority
  assignedDoctor :: "objectId option"
  symptoms :: string

record appointment =
  doctorId :: objectId
  appointmentDate :: date
  appointmentStatus :: appointmentStatus

text \<open>The operations the code awaits; each of them can be rejected by the database.\<close>

datatype query =
  UserFind
  | QueueCountDocuments objectId
  | AppointmentCountDocuments objectId
  | QueueFind objectId
  | QueueFindOne
  | QueueInsert
  | QueueFindById
  | QueueDelete

datatype error =
  QueryFailed query
  | NoAvailableDoctors
  | ValidationFailed
  | DuplicateKey
  | TypeError
  | EntryNotFound
  | CannotDelete
  | AssignmentFailed error

text \<open>
  The collections in their natural order (the order of insertion), and \<open>rejects\<close>, the
  operations the database fails.
\<close>

record database =
  users :: "user list"
  queues :: "queueDoc list"
  appointments :: "appointment list"
  rejects :: "query set"

text \<open>
  \<^verbatim>\<open>today.setHours(0, 0, 0, 0)\<close> and \<^verbatim>\<open>tomorrow.setDate(tomorrow.getDate() + 1)\<close>,
  for a process whose time zone is UTC.
\<close>

definition msPerDay :: int where
  "msPerDay = 86400000"

definition startOfDay :: "date \<Rightarrow> date" where
  "startOfDay t = t - t mod msPerDay"

definition nextDay :: "date \<Rightarrow> date" where
  "nextDay t = t + msPerDay"

subsection \<open>calculateDoctorWorkload and getAverageWaitTime\<close>

text \<open>
  The two services filter the queue collection on the path \<^verbatim>\<open>doctorId\<close>. The queue
  schema declares no such path (the doctor of an entry is at \<^verbatim>\<open>assignedDoctor\<close>), and a
  document saved through the schema holds the declared paths only: a stored entry has no
  value at \<^verbatim>\<open>doctorId\<close>. An equality filter selects the entries whose value at the
  path is the given id.
\<close>

definition queueDoctorId :: "queueDoc \<Rightarrow> objectId option" where
  "queueDoctorId q = None"

definition queueCount :: "database \<Rightarrow> objectId \<Rightarrow> error + nat" where
  "queueCount db d =
     (if QueueCountDocuments d \<in> rejects db then Inl (QueryFailed (QueueCountDocuments d))
      else Inr (length (filter (\<lambda>q. queueDoctorId q = Some d
                                  \<and> queueStatus q \<in> {Waiting, InProgress}) (queues db))))"

definition todayAppointments :: "database \<Rightarrow> date \<Rightarrow> objectId \<Rightarrow> error + nat" where
  "todayAppointments db now d =
     (let today = startOfDay now; tomorrow = nextDay today
      in if AppointmentCountDocuments d \<in> rejects db
         then Inl (QueryFailed (AppointmentCountDocuments d))
         else Inr (length (filter (\<lambda>a. doctorId a = d
                                     \<and> today \<le> appointmentDate a \<and> appointmentDate a < tomorrow
                                     \<and> appointmentStatus a \<in> {Scheduled, Confirmed, ApptInProgress})
                                  (appointments db))))"

definition calculateDoctorWorkload :: "database \<Rightarrow> date \<Rightarrow> objectId \<Rightarrow> int" where
  "calculateDoctorWorkload db now d =
     (case queueCount db d of
        Inl e \<Rightarrow> 999
      | Inr qc \<Rightarrow>
          (case todayAppointments db now d of
             Inl e \<Rightarrow> 999
           | Inr ta \<Rightarrow> (int qc * 2) + int ta))"

definition queueEntries :: "database \<Rightarrow> objectId \<Rightarrow> error + queueDoc list" where
  "queueEntries db d =
     (if QueueFind d \<in> rejects db then Inl (QueryFailed (QueueFind d))
      else Inr (sort_key queueNumber
                  (filter (\<lambda>q. queueDoctorId q = Some d \<and> queueStatus q = Waiting) (queues db))))"

definition getAverageWaitTime :: "database \<Rightarrow> objectId \<Rightarrow> int" where
  "getAverageWaitTime db d =
     (case queueEntries db d of
        Inl e \<Rightarrow> 999
      | Inr entries \<Rightarrow> if length entries = 0 then 0 else int (length entries) * 15)"

subsection \<open>Numbers\<close>

text \<open>
  A JavaScript number is an IEEE 754 double. A finite double is modelled by its exact
  value, a rational. \<open>toDouble\<close> rounds a rational to the nearest double, ties to the even
  significand: 53 significant bits, and no bit below \<open>2\<^sup>-\<^sup>1\<^sup>0\<^sup>7\<^sup>4\<close>. Every arithmetic
  operation gives the exact result rounded so. No count of a collection comes near the
  greatest double, so overflow is left out.
\<close>

definition pow2 :: "int \<Rightarrow> rat" where
  "pow2 e = (if 0 \<le> e then 2 ^ nat e else 1 / 2 ^ nat (- e))"

text \<open>The integer part of the binary logarithm of a positive rational.\<close>

definition floorLog2 :: "rat \<Rightarrow> int" where
  "floorLog2 q = (if 1 \<le> q then bitlen \<lfloor>q\<rfloor> - 1 else - bitlen (\<lceil>1 / q\<rceil> - 1))"

definition roundHalfEven :: "rat \<Rightarrow> int" where
  "roundHalfEven q =
     (let f = \<lfloor>q\<rfloor>; r = q - of_int f
      in if r < 1 / 2 then f else if 1 / 2 < r then f + 1 else if even f then f else f + 1)"

definition toDouble :: "rat \<Rightarrow> rat" where
  "toDouble q =
     (if q = 0 then 0
      else (let e = max (floorLog2 \<bar>q\<bar> - 52) (- 1074)
            in of_int (roundHalfEven (q / pow2 e)) * pow2 e))"

definition jsAdd :: "rat \<Rightarrow> rat \<Rightarrow> rat" where
  "jsAdd a b = toDouble (a + b)"

definition jsSub :: "rat \<Rightarrow> rat \<Rightarrow> rat" where
  "jsSub a b = toDouble (a - b)"

definition jsMul :: "rat \<Rightarrow> rat \<Rightarrow> rat" where
  "jsMul a b = toDouble (a * b)"

definition jsDiv :: "rat \<Rightarrow> rat \<Rightarrow> rat" where
  "jsDiv a b = toDouble (a / b)"

subsection \<open>findBestDoctor\<close>

record doctorScore =
  doctor :: user
  workload :: int
  waitTime :: int
  specializationScore :: int
  finalScore :: rat

record bestDoctor =
  bestDoctor :: user
  bestWorkload :: int
  estimatedWaitTime :: int
  specializationMatch :: bool
  matchConfidence :: confidence

definition availableDoctors :: "database \<Rightarrow> string list \<Rightarrow> error + user list" where
  "availableDoctors db specs =
     (if UserFind \<in> rejects db then Inl (QueryFailed UserFind)
      else Inr (filter (\<lambda>u. role u = RoleDoctor \<and> isActive u
                          \<and> ((\<exists>s \<in> set specs. department u = Some s)
                             \<or> (\<exists>s \<in> set (userSpecializations u). s \<in> set specs)
                             \<or> department u = Some ''internal-medicine''))
                       (users db)))"

text \<open>A string is truthy unless it is absent or empty.\<close>

definition truthy :: "string option \<Rightarrow> bool" where
  "truthy v = (case v of None \<Rightarrow> False | Some s \<Rightarrow> s \<noteq> [])"

definition matchScore :: "string list \<Rightarrow> user \<Rightarrow> int" where
  "matchScore specs u =
     (let s0 = (0::int);
          s1 = (if truthy (department u) \<and> the (department u) \<in> set specs then s0 + 10 else s0)
      in s1 + int (length (filter (\<lambda>spec. spec \<in> set specs) (userSpecializations u))) * 5)"

text \<open>The literals \<^verbatim>\<open>0.1\<close>, \<^verbatim>\<open>0.5\<close>, \<^verbatim>\<open>1\<close> and \<^verbatim>\<open>1.5\<close>, each the double nearest to it.\<close>

definition priorityMultiplier :: "priority \<Rightarrow> rat" where
  "priorityMultiplier p =
     (if p = Emergency then toDouble (1 / 10)
      else if p = High then toDouble (1 / 2)
      else if p = Medium then toDouble 1
      else toDouble (3 / 2))"

text \<open>
  \<^verbatim>\<open>(workload + (waitTime / 15)) * priorityMultiplier - specializationScore\<close>. The three
  integers are far below \<open>2\<^sup>5\<^sup>3\<close> and are doubles as they are.
\<close>

definition finalScoreOf :: "int \<Rightarrow> int \<Rightarrow> priority \<Rightarrow> int \<Rightarrow> rat" where
  "finalScoreOf w wt p sc =
     jsSub (jsMul (jsAdd (of_int w) (jsDiv (of_int wt) 15)) (priorityMultiplier p)) (of_int sc)"

definition scoreDoctor :: "database \<Rightarrow> date \<Rightarrow> string list \<Rightarrow> priority \<Rightarrow> user \<Rightarrow> doctorScore" where
  "scoreDoctor db now specs p u =
     (let w = calculateDoctorWorkload db now (userId u);
          wt = getAverageWaitTime db (userId u);
          sc = matchScore specs u
      in \<lparr> doctor = u, workload = w, waitTime = wt, specializationScore = sc,
           finalScore = finalScoreOf w wt p sc \<rparr>)"

text \<open>
  \<^verbatim>\<open>Array.prototype.sort\<close> with the comparator \<^verbatim>\<open>a.finalScore - b.finalScore\<close> is a
  stable ascending sort on the final score, as \<^const>\<open>sort_key\<close> is: the difference of
  two doubles has the sign of the difference of their values. Reading element 0 of
  an empty array gives \<^verbatim>\<open>undefined\<close>, and reading a property of it throws.
\<close>

definition findBestDoctor ::
  "database \<Rightarrow> date \<Rightarrow> string list \<Rightarrow> priority \<Rightarrow> error + bestDoctor" where
  "findBestDoctor db now specs p =
     (case availableDoctors db specs of
        Inl e \<Rightarrow> Inl e
      | Inr ds \<Rightarrow>
          if length ds = 0 then Inl NoAvailableDoctors
          else (case sort_key finalScore (map (scoreDoctor db now specs p) ds) of
                  [] \<Rightarrow> Inl TypeError
                | bestMatch # _ \<Rightarrow>
                    Inr \<lparr> bestDoctor = doctor bestMatch,
                          bestWorkload = workload bestMatch,
                          estimatedWaitTime = waitTime bestMatch,
                          specializationMatch = (specializationScore bestMatch > 0),
                          matchConfidence =
                            (if specializationScore bestMatch > 5 then ConfHigh else ConfMedium) \<rparr>))"

subsection \<open>Saving a queue entry\<close>

text \<open>
  The required paths of the queue schema; a required string must not be empty. The
  validation of a document runs before the hooks the schema registers for \<^verbatim>\<open>save\<close>.
\<close>

definition validateQueue :: "queueDoc \<Rightarrow> bool" where
  "validateQueue doc = (checkedInBy doc \<noteq> None \<and> symptoms doc \<noteq> [])"

text \<open>
  \<^verbatim>\<open>findOne({checkedInAt: {$gte: today}}).sort({queueNumber: -1})\<close>: the entry of the
  highest queue number among those checked in at or after the start of the day.
\<close>

definition lastQueue :: "database \<Rightarrow> date \<Rightarrow> error + queueDoc option" where
  "lastQueue db today =
     (if QueueFindOne \<in> rejects db then Inl (QueryFailed QueueFindOne)
      else Inr (case sort_key (\<lambda>q. - queueNumber q)
                       (filter (\<lambda>q. today \<le> checkedInAt q) (queues db)) of
                  [] \<Rightarrow> None
                | q # _ \<Rightarrow> Some q))"

text \<open>The hook registered with \<^verbatim>\<open>queueSchema.pre('save')\<close>.\<close>

definition preSave :: "database \<Rightarrow> date \<Rightarrow> bool \<Rightarrow> queueDoc \<Rightarrow> error + queueDoc" where
  "preSave db now isNew doc =
     (if isNew
      then (case lastQueue db (startOfDay now) of
              Inl e \<Rightarrow> Inl e
            | Inr l \<Rightarrow>
                Inr (doc\<lparr>queueNumber := (case l of Some q \<Rightarrow> queueNumber q + 1 | None \<Rightarrow> 1)\<rparr>))
      else Inr doc)"

text \<open>
  The insertion into the collection, whose index on \<^verbatim>\<open>queueNumber\<close> is declared
  \<^verbatim>\<open>unique\<close>.
\<close>

definition insertQueue :: "database \<Rightarrow> queueDoc \<Rightarrow> (error + queueDoc) \<times> database" where
  "insertQueue db doc =
     (if QueueInsert \<in> rejects db then (Inl (QueryFailed QueueInsert), db)
      else if \<exists>q \<in> set (queues db). queueNumber q = queueNumber doc then (Inl DuplicateKey, db)
      else (Inr doc, db\<lparr>queues := queues db @ [doc]\<rparr>))"

text \<open>\<^verbatim>\<open>save\<close> of a new document: validation, the hook, the insertion.\<close>

definition save :: "database \<Rightarrow> date \<Rightarrow> queueDoc \<Rightarrow> (error + queueDoc) \<times> database" where
  "save db now doc =
     (if \<not> validateQueue doc then (Inl ValidationFailed, db)
      else (case preSave db now True doc of
              Inl e \<Rightarrow> (Inl e, db)
            | Inr doc' \<Rightarrow> insertQueue db doc'))"

subsection \<open>assignDoctorToPatient\<close>

record assignmentResult =
  resultDoctor :: user
  resultQueueNumber :: int
  resultEstimatedWaitTime :: int
  resultPriority :: priority
  resultAnalysis :: analysis

text \<open>
  \<^verbatim>\<open>new Queue({patientId, assignedDoctor, priority, symptoms, queueNumber: 1})\<close>, with
  the defaults of the schema.
\<close>

definition newQueueEntry :: "date \<Rightarrow> objectId \<Rightarrow> objectId \<Rightarrow> priority \<Rightarrow> string \<Rightarrow> queueDoc" where
  "newQueueEntry now pid did p s =
     \<lparr> patientId = pid, queueNumber = 1, checkedInBy = None, checkedInAt = now,
       queueStatus = Waiting, queuePriority = p, assignedDoctor = Some did, symptoms = s \<rparr>"

definition assignDoctorToPatient ::
  "database \<Rightarrow> date \<Rightarrow> objectId \<Rightarrow> string \<Rightarrow> (error + assignmentResult) \<times> database" where
  "assignDoctorToPatient db now pid s =
     (let symptomAnalysis = analyzeSymptoms s
      in case findBestDoctor db now (specializations symptomAnalysis) (priority symptomAnalysis) of
           Inl e \<Rightarrow> (Inl (AssignmentFailed e), db)
         | Inr doctorAssignment \<Rightarrow>
             (case save db now
                     (newQueueEntry now pid (userId (bestDoctor doctorAssignment))
                        (priority symptomAnalysis) s) of
                (Inl e, db') \<Rightarrow> (Inl (AssignmentFailed e), db')
              | (Inr queueEntry, db') \<Rightarrow>
                  (Inr \<lparr> resultDoctor = bestDoctor doctorAssignment,
                         resultQueueNumber = queueNumber queueEntry,
                         resultEstimatedWaitTime = estimatedWaitTime doctorAssignment,
                         resultPriority = priority symptomAnalysis,
                         resultAnalysis = symptomAnalysis \<rparr>, db')))"

subsection \<open>Removing a queue entry\<close>

text \<open>
  The route \<^verbatim>\<open>DELETE /api/queue/:id\<close>. It finds the entry by its id; the model names a
  stored entry by its position in the collection.
\<close>

definition removeFromQueue :: "database \<Rightarrow> nat \<Rightarrow> (error + unit) \<times> database" where
  "removeFromQueue db i =
     (if QueueFindById \<in> rejects db then (Inl (QueryFailed QueueFindById), db)
      else if length (queues db) \<le> i then (Inl EntryNotFound, db)
      else if queueStatus (queues db ! i) \<notin> {Waiting, Cancelled} then (Inl CannotDelete, db)
      else if QueueDelete \<in> rejects db then (Inl (QueryFailed QueueDelete), db)
      else (Inr (), db\<lparr>queues := take i (queues db) @ drop (Suc i) (queues db)\<rparr>))"

subsection \<open>Histories\<close>

text \<open>
  Operations on the queue collection that run one after another: the save of a new
  document at a time, and the removal of a stored entry; each with the operations the
  database fails during it.
\<close>

datatype operation = Save date queueDoc "query set" | Remove nat "query set"

fun runOp :: "database \<Rightarrow> operation \<Rightarrow> database" where
  "runOp db (Save now doc rej) = snd (save (db\<lparr>rejects := rej\<rparr>) now doc)"
| "runOp db (Remove i rej) = snd (removeFromQueue (db\<lparr>rejects := rej\<rparr>) i)"

fun runOps :: "database \<Rightarrow> operation list \<Rightarrow> database" where
  "runOps db [] = db"
| "runOps db (op # ops) = runOps (runOp db op) ops"

text \<open>The numbers the hook gives to the new documents of a history, in the order of the saves.\<close>

fun issuedNumbers :: "database \<Rightarrow> operation list \<Rightarrow> int list" where
  "issuedNumbers db [] = []"
| "issuedNumbers db (Save now doc rej # ops) =
     (if validateQueue doc
      then (case preSave (db\<lparr>rejects := rej\<rparr>) now True doc of
              Inl e \<Rightarrow> []
            | Inr d \<Rightarrow> [queueNumber d])
      else [])
     @ issuedNumbers (runOp db (Save now doc rej)) ops"
| "issuedNumbers db (Remove i rej # ops) = issuedNumbers (runOp db (Remove i rej)) ops"

subsection \<open>Saves in flight together\<close>

text \<open>
  A save awaits the database twice: the hook reads the collection, and later the
  insertion writes it. Saves in flight together interleave at these two points. The
  documents in flight have passed validation; \<open>Hook i\<close> runs the hook of document \<open>i\<close>,
  \<open>Insert i\<close> its insertion.
\<close>

datatype event = Hook nat | Insert nat

fun runEvent :: "date \<Rightarrow> event \<Rightarrow> queueDoc list \<times> database \<Rightarrow> queueDoc list \<times> database" where
  "runEvent now (Hook i) (docs, db) =
     (if i < length docs
      then (case preSave db now True (docs ! i) of
              Inl e \<Rightarrow> (docs, db)
            | Inr d \<Rightarrow> (docs[i := d], db))
      else (docs, db))"
| "runEvent now (Insert i) (docs, db) =
     (if i < length docs then (docs, snd (insertQueue db (docs ! i))) else (docs, db))"

definition runEvents ::
  "date \<Rightarrow> event list \<Rightarrow> queueDoc list \<times> database \<Rightarrow> queueDoc list \<times> database" where
  "runEvents now evs st = foldl (\<lambda>st' e. runEvent now e st') st evs"

subsection \<open>The numbering of a day\<close>

definition sameDay :: "date \<Rightarrow> date \<Rightarrow> bool" where
  "sameDay a b = (startOfDay a = startOfDay b)"

text \<open>
  The number the sequential contract gives at time \<open>t\<close> over the stored entries \<open>qs\<close>:
  1 when none of them was checked in on the day of \<open>t\<close>, the highest number of that day
  plus one otherwise.
\<close>

definition numbersOfDay :: "queueDoc list \<Rightarrow> date \<Rightarrow> int list" where
  "numbersOfDay qs t = map queueNumber (filter (\<lambda>q. sameDay (checkedInAt q) t) qs)"

definition nextNumber :: "queueDoc list \<Rightarrow> date \<Rightarrow> int" where
  "nextNumber qs t =
     (if numbersOfDay qs t = [] then 1 else Max (set (numbersOfDay qs t)) + 1)"

text \<open>
  The stored entries carry positive numbers, and of two entries of one day the one
  stored later carries the greater number.
\<close>

fun storedInOrder :: "queueDoc list \<Rightarrow> bool" where
  "storedInOrder [] = True"
| "storedInOrder (q # rest) =
     (0 < queueNumber q
      \<and> (\<forall>r \<in> set rest. sameDay (checkedInAt q) (checkedInAt r) \<longrightarrow> queueNumber q < queueNumber r)
      \<and> storedInOrder rest)"

text \<open>
  A sequential history: the clock does not run backwards, and each document is
  constructed, with the default \<^verbatim>\<open>checkedInAt: Date.now\<close>, at the time it is saved.
\<close>

fun sequential :: "date \<Rightarrow> operation list \<Rightarrow> bool" where
  "sequential t [] = True"
| "sequential t (Save now doc rej # ops) =
     (t \<le> now \<and> checkedInAt doc = now \<and> sequential now ops)"
| "sequential t (Remove i rej # ops) = sequential t ops"

fun lastTime :: "date \<Rightarrow> operation list \<Rightarrow> date" where
  "lastTime t [] = t"
| "lastTime t (Save now doc rej # ops) = lastTime now ops"
| "lastTime t (Remove i rej # ops) = lastTime t ops"

text \<open>A history of saves alone.\<close>

fun savesOnly :: "operation list \<Rightarrow> bool" where
  "savesOnly [] = True"
| "savesOnly (Save now doc rej # ops) = savesOnly ops"
| "savesOnly (Remove i rej # ops) = False"


subsection \<open>Clinic states\<close>

definition emptyClinic :: database where
  "emptyClinic = \<lparr> users = [], queues = [], appointments = [], rejects = {} \<rparr>"

text \<open>The document the check-in route constructs for a patient at time \<open>now\<close>.\<close>

definition checkInEntry :: "date \<Rightarrow> objectId \<Rightarrow> objectId \<Rightarrow> string \<Rightarrow> queueDoc" where
  "checkInEntry now pid staff s =
     \<lparr> patientId = pid, queueNumber = now, checkedInBy = Some staff, checkedInAt = now,
       queueStatus = Waiting, queuePriority = Medium, assignedDoctor = None, symptoms = s \<rparr>"

definition doctorX :: user where
  "doctorX = \<lparr> userId = ''64a0'', role = RoleDoctor, isActive = True,
               department = Some ''internal-medicine'', userSpecializations = [] \<rparr>"

definition doctorY :: user where
  "doctorY = \<lparr> userId = ''64b0'', role = RoleDoctor, isActive = True,
               department = Some ''internal-medicine'', userSpecializations = [] \<rparr>"


definition appointmentOf :: "objectId \<Rightarrow> appointment" where
  "appointmentOf d =
     \<lparr> doctorId = d, appointmentDate = 3600000, appointmentStatus = Scheduled \<rparr>"

text \<open>
  Two doctors with five appointments of the day each; the directory lists \<open>doctorY\<close>
  first.
\<close>

definition tiedClinic :: database where
  "tiedClinic =
     \<lparr> users = [doctorY, doctorX], queues = [],
       appointments = replicate 5 (appointmentOf ''64a0'') @ replicate 5 (appointmentOf ''64b0''),
       rejects = {} \<rparr>"

text \<open>
  A doctor of internal medicine with cardiology as a second specialty and 51 appointments
  of the day, listed before a doctor with one appointment.
\<close>

definition internist :: user where
  "internist = \<lparr> userId = ''64d0'', role = RoleDoctor, isActive = True,
                 department = Some ''internal-medicine'', userSpecializations = [''cardiology''] \<rparr>"

definition unevenClinic :: database where
  "unevenClinic =
     \<lparr> users = [internist, doctorX], queues = [],
       appointments = replicate 51 (appointmentOf ''64d0'') @ [appointmentOf ''64a0''],
       rejects = {} \<rparr>"



text \<open>
  Three check-ins of one day saved one after another, the removal of the third stored
  entry, and a fourth check-in of that day.
\<close>

definition removedThird :: "operation list" where
  "removedThird =
     [Save 5 (checkInEntry 5 ''p1'' ''staff'' ''cough'') {},
      Save 6 (checkInEntry 6 ''p2'' ''staff'' ''fever'') {},
      Save 7 (checkInEntry 7 ''p3'' ''staff'' ''nausea'') {},
      Remove 2 {},
      Save 8 (checkInEntry 8 ''p4'' ''staff'' ''cough'') {}]"

text \<open>Two check-ins of the first day of the epoch.\<close>

definition firstDay :: "operation list" where
  "firstDay = [Save 5 (checkInEntry 5 ''p1'' ''staff'' ''cough'') {},
               Save 7 (checkInEntry 7 ''p2'' ''staff'' ''fever'') {}]"

text \<open>The same, followed by the removal of the first stored entry.\<close>

definition removedFirst :: "operation list" where
  "removedFirst = firstDay @ [Remove 0 {}]"

section \<open>Properties\<close>

subsection \<open>Substrings\<close>

lemma startsWith_iff: "startsWith s p \<longleftrightarrow> (\<exists>r. s = p @ r)"
  by (induction s p rule: startsWith.induct) auto

lemma includesStr_iff: "includesStr s sub \<longleftrightarrow> (\<exists>a b. s = a @ sub @ b)"
proof (induction s)
  case Nil
  then show ?case by auto
next
  case (Cons c cs)
  show ?case
  proof
    assume "includesStr (c # cs) sub"
    then consider "startsWith (c # cs) sub" | "includesStr cs sub" by auto
    then show "\<exists>a b. c # cs = a @ sub @ b"
    proof cases
      case 1
      then obtain r where "c # cs = sub @ r" by (auto simp: startsWith_iff)
      then have "c # cs = [] @ sub @ r" by simp
      then show ?thesis by blast
    next
      case 2
      then obtain a b where "cs = a @ sub @ b" using Cons.IH by blast
      then have "c # cs = (c # a) @ sub @ b" by simp
      then show ?thesis by blast
    qed
  next
    assume "\<exists>a b. c # cs = a @ sub @ b"
    then obtain a b where ab: "c # cs = a @ sub @ b" by blast
    show "includesStr (c # cs) sub"
    proof (cases a)
      case Nil
      with ab have "startsWith (c # cs) sub" by (auto simp: startsWith_iff)
      then show ?thesis by simp
    next
      case (Cons x a')
      with ab have "cs = a' @ sub @ b" by simp
      then have "includesStr cs sub" using Cons.IH by blast
      then show ?thesis by simp
    qed
  qed
qed

subsection \<open>The classifier\<close>

lemma set_foldl_setAdd: "set (foldl setAdd acc specs) = set acc \<union> set specs"
  by (induction specs arbitrary: acc) (auto simp: setAdd_def)

lemma matchSymptoms_mono: "set (snd st) \<subseteq> set (snd (matchSymptoms s tbl st))"
proof (induction s tbl st rule: matchSymptoms.induct)
  case (1 s st)
  then show ?case by simp
next
  case (2 s symptom specs rest matched matchedSpecs)
  then show ?case by (auto simp: set_foldl_setAdd)
qed

lemma matchSymptoms_tags:
  "(k, tags) \<in> set tbl \<Longrightarrow> includesStr s k \<Longrightarrow> set tags \<subseteq> set (snd (matchSymptoms s tbl st))"
proof (induction s tbl st rule: matchSymptoms.induct)
  case (1 s st)
  then show ?case by simp
next
  case (2 s symptom specs rest matched matchedSpecs)
  show ?case
  proof (cases "(k, tags) = (symptom, specs)")
    case True
    with "2.prems" have "set tags \<subseteq> set (foldl setAdd matchedSpecs specs)"
      by (simp add: set_foldl_setAdd)
    also have "\<dots> \<subseteq> set (snd (matchSymptoms s rest (matched @ [symptom], foldl setAdd matchedSpecs specs)))"
      using matchSymptoms_mono [of "(matched @ [symptom], foldl setAdd matchedSpecs specs)" s rest] by simp
    finally show ?thesis using True "2.prems" by simp
  next
    case False
    with "2.prems" have "(k, tags) \<in> set rest" by auto
    with 2 show ?thesis by auto
  qed
qed


lemma scanKeywords_hit:
  "\<exists>k \<in> set kws. includesStr s k \<Longrightarrow> scanKeywords s lvl kws p = lvl"
  by (induction kws) auto

lemma chest_pain_entry: "(''chest pain'', [''cardiology'', ''emergency'']) \<in> set SYMPTOM_SPECIALIZATION_MAP"
  by (simp add: SYMPTOM_SPECIALIZATION_MAP_def)

lemma chest_pain_priority:
  assumes "includesStr s ''chest pain''"
  shows "determinePriority s SYMPTOM_PRIORITY Low = Emergency"
proof -
  have "scanKeywords s Emergency [''heart attack'', ''stroke'', ''seizure'', ''unconscious'', ''severe bleeding'',
                  ''poisoning'', ''overdose'', ''trauma'', ''severe pain'', ''breathing difficulty'',
                  ''chest pain''] Low = Emergency"
    by (rule scanKeywords_hit) (use assms in simp)
  then show ?thesis by (simp add: SYMPTOM_PRIORITY_def Let_def)
qed

text \<open>
  Claim C7. Every symptom text whose lower-cased form contains "chest pain" is classified
  with the specialties cardiology and emergency among its specialties and with the
  priority emergency. For "severe chest pain and shortness of breath" the specialties
  include cardiology, emergency and pulmonology, and the priority is emergency.
\<close>

theorem chest_pain:
  "(includesStr (toLowerCase s) ''chest pain'' \<longrightarrow>
      ''cardiology'' \<in> set (specializations (analyzeSymptoms s))
      \<and> ''emergency'' \<in> set (specializations (analyzeSymptoms s))
      \<and> priority (analyzeSymptoms s) = Emergency)
   \<and> {''cardiology'', ''emergency'', ''pulmonology''}
        \<subseteq> set (specializations (analyzeSymptoms ''severe chest pain and shortness of breath''))
   \<and> priority (analyzeSymptoms ''severe chest pain and shortness of breath'') = Emergency"
proof (intro conjI impI)
  assume h: "includesStr (toLowerCase s) ''chest pain''"
  obtain m sp where msp: "matchSymptoms (toLowerCase s) SYMPTOM_SPECIALIZATION_MAP ([], []) = (m, sp)"
    by (cases "matchSymptoms (toLowerCase s) SYMPTOM_SPECIALIZATION_MAP ([], [])")
  have sub: "set [''cardiology'', ''emergency''] \<subseteq> set sp"
    using matchSymptoms_tags [OF chest_pain_entry h, of "([], [])"] msp by simp
  then have ne: "sp \<noteq> []" by auto
  have specs: "specializations (analyzeSymptoms s) = sp"
    using msp ne by (simp add: analyzeSymptoms_def Let_def)
  show "''cardiology'' \<in> set (specializations (analyzeSymptoms s))" using sub specs by simp
  show "''emergency'' \<in> set (specializations (analyzeSymptoms s))" using sub specs by simp
  show "priority (analyzeSymptoms s) = Emergency"
    using chest_pain_priority [OF h] by (simp add: analyzeSymptoms_def Let_def split: prod.splits)
next
  show "{''cardiology'', ''emergency'', ''pulmonology''}
        \<subseteq> set (specializations (analyzeSymptoms ''severe chest pain and shortness of breath''))"
    by code_simp
  show "priority (analyzeSymptoms ''severe chest pain and shortness of breath'') = Emergency"
    by code_simp
qed

theorem chest_pain_witness:
  "includesStr (toLowerCase ''Sudden CHEST Pain'') ''chest pain''
   \<and> ''cardiology'' \<in> set (specializations (analyzeSymptoms ''Sudden CHEST Pain''))
   \<and> ''emergency'' \<in> set (specializations (analyzeSymptoms ''Sudden CHEST Pain''))
   \<and> priority (analyzeSymptoms ''Sudden CHEST Pain'') = Emergency"
proof -
  have h: "includesStr (toLowerCase ''Sudden CHEST Pain'') ''chest pain''" by code_simp
  show ?thesis using h chest_pain [of "''Sudden CHEST Pain''"] by blast
qed





subsection \<open>Sorting\<close>

lemma hd_insort_key:
  "hd (insort_key f x ys) = (if ys = [] \<or> f x \<le> f (hd ys) then x else hd ys)"
  by (cases ys) auto

lemma sort_key_Nil_iff: "sort_key f xs = [] \<longleftrightarrow> xs = []"
  by (cases xs) simp_all

lemma sort_key_first_min:
  "xs \<noteq> [] \<Longrightarrow>
     \<exists>pre post. xs = pre @ hd (sort_key f xs) # post
        \<and> (\<forall>y \<in> set pre. f (hd (sort_key f xs)) < f y)
        \<and> (\<forall>y \<in> set post. f (hd (sort_key f xs)) \<le> f y)"
proof (induction xs)
  case Nil
  then show ?case by simp
next
  case (Cons x xs)
  show ?case
  proof (cases "xs = []")
    case True
    then have "x # xs = [] @ hd (sort_key f (x # xs)) # []" by simp
    then show ?thesis by (metis empty_iff list.set(1))
  next
    case False
    then obtain pre post where pp: "xs = pre @ hd (sort_key f xs) # post"
      "\<forall>y \<in> set pre. f (hd (sort_key f xs)) < f y"
      "\<forall>y \<in> set post. f (hd (sort_key f xs)) \<le> f y"
      using Cons.IH by blast
    let ?m = "hd (sort_key f xs)"
    have ne: "sort_key f xs \<noteq> []" using False by (simp add: sort_key_Nil_iff)
    have all: "\<forall>y \<in> set xs. f ?m \<le> f y"
    proof
      fix y assume "y \<in> set xs"
      then have "y \<in> set pre \<or> y = ?m \<or> y \<in> set post" using pp(1) by (metis Un_iff set_ConsD set_append)
      then show "f ?m \<le> f y" using pp(2,3) by auto
    qed
    show ?thesis
    proof (cases "f x \<le> f ?m")
      case True
      then have h: "hd (sort_key f (x # xs)) = x" by (simp add: hd_insort_key)
      have "x # xs = [] @ x # xs" by simp
      moreover have "\<forall>y \<in> set xs. f x \<le> f y" using True all by auto
      ultimately show ?thesis unfolding h by (metis empty_iff list.set(1))
    next
      case F: False
      then have h: "hd (sort_key f (x # xs)) = ?m" using ne by (simp add: hd_insort_key)
      have "x # xs = (x # pre) @ ?m # post" using pp(1) by simp
      moreover have "\<forall>y \<in> set (x # pre). f ?m < f y" using F pp(2) by auto
      ultimately show ?thesis unfolding h using pp(3) by blast
    qed
  qed
qed


lemma map_eq_split:
  assumes "map sc ds = pre @ b # post"
  shows "\<exists>dpre d dpost. ds = dpre @ d # dpost \<and> map sc dpre = pre \<and> sc d = b \<and> map sc dpost = post"
proof -
  from assms obtain dpre rest where d0: "ds = dpre @ rest" "pre = map sc dpre"
      "b # post = map sc rest"
    unfolding map_eq_append_conv by (elim exE conjE)
  from d0(3) obtain d dpost where d1: "rest = d # dpost" "sc d = b" "map sc dpost = post"
    by (cases rest) simp_all
  have "ds = dpre @ d # dpost \<and> map sc dpre = pre \<and> sc d = b \<and> map sc dpost = post"
    using d0 d1 by simp
  then show ?thesis by (intro exI)
qed

subsection \<open>Days\<close>

lemma startOfDay_div: "startOfDay t = msPerDay * (t div msPerDay)"
  by (simp add: startOfDay_def minus_mod_eq_mult_div)

lemma msPerDay_pos: "0 < msPerDay"
  by (simp add: msPerDay_def)

lemma startOfDay_le: "startOfDay t \<le> t"
proof -
  have "0 \<le> t mod msPerDay" using msPerDay_pos by simp
  then show ?thesis by (simp add: startOfDay_def)
qed

lemma sameDay_iff_div: "sameDay a b \<longleftrightarrow> a div msPerDay = b div msPerDay"
  using msPerDay_pos by (simp add: sameDay_def startOfDay_div)

lemma today_iff_sameDay:
  assumes "c \<le> now"
  shows "startOfDay now \<le> c \<longleftrightarrow> sameDay c now"
proof
  assume h: "startOfDay now \<le> c"
  then have "(msPerDay * (now div msPerDay)) div msPerDay \<le> c div msPerDay"
    unfolding startOfDay_div by (rule zdiv_mono1) (rule msPerDay_pos)
  then have "now div msPerDay \<le> c div msPerDay" using msPerDay_pos by simp
  moreover have "c div msPerDay \<le> now div msPerDay"
    using assms msPerDay_pos by (rule zdiv_mono1)
  ultimately show "sameDay c now" by (simp add: sameDay_iff_div)
next
  assume "sameDay c now"
  then have "startOfDay now = startOfDay c" by (simp add: sameDay_def)
  then show "startOfDay now \<le> c" using startOfDay_le [of c] by simp
qed

subsection \<open>The hook\<close>

lemma hd_sort_desc:
  assumes "sort_key (\<lambda>q. - queueNumber q) F = h # rest"
  shows "queueNumber h = Max (set (map queueNumber F))"
proof -
  have ne: "F \<noteq> []" using assms by (cases F) simp_all
  have hd: "hd (sort_key (\<lambda>q. - queueNumber q) F) = h" using assms by simp
  from sort_key_first_min [OF ne, of "\<lambda>q. - queueNumber q"]
  obtain pre post where pp: "F = pre @ h # post"
      "\<forall>y \<in> set pre. - queueNumber h < - queueNumber y"
      "\<forall>y \<in> set post. - queueNumber h \<le> - queueNumber y"
    unfolding hd by (elim exE conjE)
  have mem: "queueNumber h \<in> set (map queueNumber F)" unfolding pp(1) by simp
  have ub: "\<And>n. n \<in> set (map queueNumber F) \<Longrightarrow> n \<le> queueNumber h"
  proof -
    fix n assume "n \<in> set (map queueNumber F)"
    then obtain q where q: "q \<in> set F" "n = queueNumber q" by auto
    from q(1) have "q \<in> set pre \<or> q = h \<or> q \<in> set post" unfolding pp(1) by auto
    then show "n \<le> queueNumber h" using pp(2,3) q(2) by auto
  qed
  show ?thesis by (rule Max_eqI [symmetric]) (use mem ub in simp_all)
qed

lemma lastQueue_nextNumber:
  assumes "QueueFindOne \<notin> rejects db" and "\<forall>q \<in> set (queues db). checkedInAt q \<le> now"
  shows "\<exists>l. lastQueue db (startOfDay now) = Inr l
           \<and> (case l of Some q \<Rightarrow> queueNumber q + 1 | None \<Rightarrow> 1) = nextNumber (queues db) now"
proof -
  let ?F = "filter (\<lambda>q. sameDay (checkedInAt q) now) (queues db)"
  have feq: "filter (\<lambda>q. startOfDay now \<le> checkedInAt q) (queues db) = ?F"
    by (rule filter_cong) (use assms(2) today_iff_sameDay in simp_all)
  have nd: "numbersOfDay (queues db) now = map queueNumber ?F" by (simp add: numbersOfDay_def)
  show ?thesis
  proof (cases "sort_key (\<lambda>q. - queueNumber q) ?F")
    case Nil
    then have "?F = []" by (simp only: sort_key_Nil_iff)
    then show ?thesis using assms(1) Nil by (simp add: lastQueue_def feq nextNumber_def nd)
  next
    case (Cons h rest)
    then have ne: "?F \<noteq> []" by (cases ?F) simp_all
    have "queueNumber h = Max (set (map queueNumber ?F))" by (rule hd_sort_desc [OF Cons])
    then show ?thesis using assms(1) Cons ne by (simp add: lastQueue_def feq nextNumber_def nd)
  qed
qed

lemma preSave_nextNumber:
  assumes "QueueFindOne \<notin> rejects db" and "\<forall>q \<in> set (queues db). checkedInAt q \<le> now"
  shows "preSave db now True doc = Inr (doc\<lparr>queueNumber := nextNumber (queues db) now\<rparr>)"
proof -
  from lastQueue_nextNumber [OF assms] obtain l where
    l: "lastQueue db (startOfDay now) = Inr l"
       "(case l of Some q \<Rightarrow> queueNumber q + 1 | None \<Rightarrow> 1) = nextNumber (queues db) now"
    by (elim exE conjE)
  show ?thesis by (simp add: preSave_def l)
qed

lemma preSave_cases:
  "preSave db now True doc = Inr d \<Longrightarrow> QueueFindOne \<notin> rejects db"
  by (auto simp: preSave_def lastQueue_def split: if_splits sum.splits)

lemma save_cases:
  "queues (snd (save db now doc)) = queues db
   \<or> (\<exists>d. preSave db now True doc = Inr d \<and> queues (snd (save db now doc)) = queues db @ [d])"
  by (auto simp: save_def insertQueue_def split: sum.splits)

subsection \<open>Stored entries\<close>

lemma storedInOrder_append:
  "storedInOrder (xs @ ys) \<longleftrightarrow>
     storedInOrder xs \<and> storedInOrder ys
     \<and> (\<forall>q \<in> set xs. \<forall>r \<in> set ys.
           sameDay (checkedInAt q) (checkedInAt r) \<longrightarrow> queueNumber q < queueNumber r)"
  by (induction xs) auto

lemma storedInOrder_positive: "storedInOrder qs \<Longrightarrow> \<forall>q \<in> set qs. 0 < queueNumber q"
  by (induction qs) auto

lemma storedInOrder_split:
  assumes "storedInOrder (a @ q1 # b @ q2 # c)" and "sameDay (checkedInAt q1) (checkedInAt q2)"
  shows "queueNumber q1 < queueNumber q2"
proof -
  from assms(1) have "storedInOrder (q1 # b @ q2 # c)" by (simp add: storedInOrder_append)
  then show ?thesis using assms(2) by simp
qed

lemma storedInOrder_remove:
  assumes "storedInOrder qs"
  shows "storedInOrder (take i qs @ drop (Suc i) qs)"
proof (cases "i < length qs")
  case True
  then have "qs = take i qs @ qs ! i # drop (Suc i) qs" by (rule id_take_nth_drop)
  then have "storedInOrder (take i qs @ [qs ! i] @ drop (Suc i) qs)" using assms by simp
  then have "storedInOrder (take i qs)" "storedInOrder (drop (Suc i) qs)"
      "\<forall>q \<in> set (take i qs). \<forall>r \<in> set (drop (Suc i) qs).
           sameDay (checkedInAt q) (checkedInAt r) \<longrightarrow> queueNumber q < queueNumber r"
    unfolding storedInOrder_append by simp_all
  then show ?thesis unfolding storedInOrder_append by (intro conjI)
next
  case False
  then show ?thesis using assms by simp
qed

lemma nextNumber_greater:
  assumes "q \<in> set qs" and "sameDay (checkedInAt q) t"
  shows "queueNumber q < nextNumber qs t"
proof -
  have mem: "queueNumber q \<in> set (numbersOfDay qs t)" using assms by (simp add: numbersOfDay_def)
  then have ne: "numbersOfDay qs t \<noteq> []" by auto
  have "queueNumber q \<le> Max (set (numbersOfDay qs t))" using mem by (intro Max_ge) simp_all
  then show ?thesis using ne by (simp add: nextNumber_def)
qed

lemma nextNumber_positive:
  assumes "\<forall>q \<in> set qs. 0 < queueNumber q"
  shows "0 < nextNumber qs t"
proof (cases "numbersOfDay qs t = []")
  case True
  then show ?thesis by (simp add: nextNumber_def)
next
  case False
  then have "Max (set (numbersOfDay qs t)) \<in> set (numbersOfDay qs t)" by (intro Max_in) simp_all
  then obtain x where x: "x \<in> set qs" "queueNumber x = Max (set (numbersOfDay qs t))"
    by (auto simp: numbersOfDay_def)
  have "0 < queueNumber x" using assms x(1) by simp
  then have "0 < Max (set (numbersOfDay qs t))" by (simp only: x(2))
  then show ?thesis using False by (simp add: nextNumber_def)
qed

lemma save_stored:
  assumes so: "storedInOrder (queues db)" and le: "\<forall>q \<in> set (queues db). checkedInAt q \<le> t"
    and t: "t \<le> now" and c: "checkedInAt doc = now"
  shows "storedInOrder (queues (snd (save (db\<lparr>rejects := rej\<rparr>) now doc)))
         \<and> (\<forall>q \<in> set (queues (snd (save (db\<lparr>rejects := rej\<rparr>) now doc))). checkedInAt q \<le> now)"
proof -
  let ?db = "db\<lparr>rejects := rej\<rparr>"
  have le': "\<forall>q \<in> set (queues ?db). checkedInAt q \<le> now" using le t by auto
  from save_cases [of ?db now doc] show ?thesis
  proof
    assume "queues (snd (save ?db now doc)) = queues ?db"
    then show ?thesis using so le' by simp
  next
    assume "\<exists>d. preSave ?db now True doc = Inr d \<and> queues (snd (save ?db now doc)) = queues ?db @ [d]"
    then obtain d where d: "preSave ?db now True doc = Inr d"
        "queues (snd (save ?db now doc)) = queues ?db @ [d]" by (elim exE conjE)
    have nr: "QueueFindOne \<notin> rejects ?db" using d(1) by (rule preSave_cases)
    have "d = doc\<lparr>queueNumber := nextNumber (queues ?db) now\<rparr>"
      using preSave_nextNumber [OF nr le', of doc] d(1) by simp
    then have dq: "queueNumber d = nextNumber (queues db) now" "checkedInAt d = now"
      using c by simp_all
    have pos: "0 < queueNumber d"
      unfolding dq(1) by (rule nextNumber_positive) (rule storedInOrder_positive [OF so])
    have gt: "\<forall>q \<in> set (queues db). sameDay (checkedInAt q) (checkedInAt d)
                \<longrightarrow> queueNumber q < queueNumber d"
      unfolding dq using nextNumber_greater by blast
    have "storedInOrder (queues db @ [d])"
      unfolding storedInOrder_append using so pos gt by simp
    then show ?thesis using d(2) le' dq(2) by simp
  qed
qed

lemma remove_stored:
  assumes "storedInOrder (queues db)" and "\<forall>q \<in> set (queues db). checkedInAt q \<le> t"
  shows "storedInOrder (queues (snd (removeFromQueue (db\<lparr>rejects := rej\<rparr>) i)))
         \<and> (\<forall>q \<in> set (queues (snd (removeFromQueue (db\<lparr>rejects := rej\<rparr>) i))). checkedInAt q \<le> t)"
proof -
  have sub: "set (take i (queues db) @ drop (Suc i) (queues db)) \<subseteq> set (queues db)"
    using set_take_subset set_drop_subset by (metis Un_least set_append)
  have r: "storedInOrder (take i (queues db) @ drop (Suc i) (queues db))"
    using assms(1) by (rule storedInOrder_remove)
  have b: "\<forall>q \<in> set (take i (queues db) @ drop (Suc i) (queues db)). checkedInAt q \<le> t"
    using assms(2) sub by blast
  show ?thesis using assms r b by (simp add: removeFromQueue_def)
qed

lemma runOps_stored:
  "sequential t ops \<Longrightarrow> storedInOrder (queues db) \<Longrightarrow> \<forall>q \<in> set (queues db). checkedInAt q \<le> t
   \<Longrightarrow> storedInOrder (queues (runOps db ops))
       \<and> (\<forall>q \<in> set (queues (runOps db ops)). checkedInAt q \<le> lastTime t ops)"
proof (induction ops arbitrary: t db)
  case Nil
  then show ?case by simp
next
  case (Cons op ops)
  show ?case
  proof (cases op)
    case (Save now doc rej)
    from Cons.prems(1) have s: "t \<le> now" "checkedInAt doc = now" "sequential now ops"
      by (simp_all add: Save)
    from save_stored [OF Cons.prems(2,3) s(1,2), of rej]
    have inv: "storedInOrder (queues (runOp db op))"
        "\<forall>q \<in> set (queues (runOp db op)). checkedInAt q \<le> now"
      by (simp_all add: Save)
    from Cons.IH [OF s(3) inv] show ?thesis by (simp add: Save)
  next
    case (Remove i rej)
    from Cons.prems(1) have s: "sequential t ops" by (simp add: Remove)
    from remove_stored [OF Cons.prems(2,3), of rej i]
    have inv: "storedInOrder (queues (runOp db op))"
        "\<forall>q \<in> set (queues (runOp db op)). checkedInAt q \<le> t"
      by (simp_all add: Remove)
    from Cons.IH [OF s inv] show ?thesis by (simp add: Remove)
  qed
qed

subsection \<open>Scoring\<close>

lemma table_tags_nonempty: "\<forall>row \<in> set SYMPTOM_SPECIALIZATION_MAP. [] \<notin> set (snd row)"
  by (simp add: SYMPTOM_SPECIALIZATION_MAP_def)

lemma matchSymptoms_nonempty_tags:
  "\<forall>row \<in> set tbl. [] \<notin> set (snd row) \<Longrightarrow> [] \<notin> set (snd st)
   \<Longrightarrow> [] \<notin> set (snd (matchSymptoms s tbl st))"
proof (induction s tbl st rule: matchSymptoms.induct)
  case (1 s st)
  then show ?case by simp
next
  case (2 s symptom specs rest matched matchedSpecs)
  then show ?case by (auto simp: set_foldl_setAdd)
qed

lemma analyzed_tags_nonempty: "[] \<notin> set (specializations (analyzeSymptoms s))"
proof -
  obtain m sp where msp: "matchSymptoms (toLowerCase s) SYMPTOM_SPECIALIZATION_MAP ([], []) = (m, sp)"
    by (cases "matchSymptoms (toLowerCase s) SYMPTOM_SPECIALIZATION_MAP ([], [])")
  have "[] \<notin> set (snd (matchSymptoms (toLowerCase s) SYMPTOM_SPECIALIZATION_MAP ([], [])))"
    by (rule matchSymptoms_nonempty_tags) (simp_all add: table_tags_nonempty)
  then have "[] \<notin> set sp" using msp by simp
  then show ?thesis using msp by (simp add: analyzeSymptoms_def Let_def setAdd_def)
qed

lemma matchScore_eq:
  "matchScore specs u =
     (if \<exists>dep \<in> set specs. dep \<noteq> [] \<and> department u = Some dep then 10 else 0)
     + 5 * int (length (filter (\<lambda>t. t \<in> set specs) (userSpecializations u)))"
proof -
  have "truthy (department u) \<and> the (department u) \<in> set specs
          \<longleftrightarrow> (\<exists>dep \<in> set specs. dep \<noteq> [] \<and> department u = Some dep)"
    by (cases "department u") (auto simp: truthy_def)
  then show ?thesis by (simp add: matchScore_def Let_def)
qed

lemma multipliers:
  "priorityMultiplier Emergency = 3602879701896397 / 36028797018963968"
  "priorityMultiplier High = 1 / 2"
  "priorityMultiplier Medium = 1"
  "priorityMultiplier Low = 3 / 2"
  by code_simp+

text \<open>
  Claim C3. For every scored candidate: the specialty match score is 10 if the
  candidate's department (a non-empty string) is among the requested specialties, plus 5
  for each of the candidate's secondary specialties that is among them; for the
  specialties the classifier gives, that is 10 exactly if the department is among them.
  The multiplier is the number 0.1 for emergency, 0.5 for high, 1 for medium and 1.5 for
  low. The final score is (workload + waitTime / 15) times the multiplier, minus the match
  score, in the arithmetic of JavaScript numbers.
\<close>

theorem scoring_formula:
  "specializationScore (scoreDoctor db now specs p u) =
       (if \<exists>dep \<in> set specs. dep \<noteq> [] \<and> department u = Some dep then 10 else 0)
       + 5 * int (length (filter (\<lambda>t. t \<in> set specs) (userSpecializations u)))
   \<and> specializationScore (scoreDoctor db now (specializations (analyzeSymptoms s)) p u) =
       (if department u \<in> Some ` set (specializations (analyzeSymptoms s)) then 10 else 0)
       + 5 * int (length (filter (\<lambda>t. t \<in> set (specializations (analyzeSymptoms s)))
                                 (userSpecializations u)))
   \<and> priorityMultiplier Emergency = toDouble (1 / 10)
   \<and> priorityMultiplier Emergency = 3602879701896397 / 36028797018963968
   \<and> priorityMultiplier High = 1 / 2
   \<and> priorityMultiplier Medium = 1
   \<and> priorityMultiplier Low = 3 / 2
   \<and> finalScore (scoreDoctor db now specs p u) =
       jsSub (jsMul (jsAdd (of_int (workload (scoreDoctor db now specs p u)))
                           (jsDiv (of_int (waitTime (scoreDoctor db now specs p u))) 15))
                    (priorityMultiplier p))
             (of_int (specializationScore (scoreDoctor db now specs p u)))"
proof (intro conjI)
  show "specializationScore (scoreDoctor db now specs p u) =
       (if \<exists>dep \<in> set specs. dep \<noteq> [] \<and> department u = Some dep then 10 else 0)
       + 5 * int (length (filter (\<lambda>t. t \<in> set specs) (userSpecializations u)))"
    by (simp add: scoreDoctor_def Let_def matchScore_eq)
  have "(\<exists>dep \<in> set (specializations (analyzeSymptoms s)). dep \<noteq> [] \<and> department u = Some dep)
        \<longleftrightarrow> department u \<in> Some ` set (specializations (analyzeSymptoms s))"
    using analyzed_tags_nonempty [of s] by auto
  then show "specializationScore (scoreDoctor db now (specializations (analyzeSymptoms s)) p u) =
       (if department u \<in> Some ` set (specializations (analyzeSymptoms s)) then 10 else 0)
       + 5 * int (length (filter (\<lambda>t. t \<in> set (specializations (analyzeSymptoms s)))
                                 (userSpecializations u)))"
    by (simp add: scoreDoctor_def Let_def matchScore_eq)
  show "priorityMultiplier Emergency = toDouble (1 / 10)" by (simp add: priorityMultiplier_def)
  show "priorityMultiplier Emergency = 3602879701896397 / 36028797018963968" by (rule multipliers)
  show "priorityMultiplier High = 1 / 2" by (rule multipliers)
  show "priorityMultiplier Medium = 1" by (rule multipliers)
  show "priorityMultiplier Low = 3 / 2" by (rule multipliers)
  show "finalScore (scoreDoctor db now specs p u) =
       jsSub (jsMul (jsAdd (of_int (workload (scoreDoctor db now specs p u)))
                           (jsDiv (of_int (waitTime (scoreDoctor db now specs p u))) 15))
                    (priorityMultiplier p))
             (of_int (specializationScore (scoreDoctor db now specs p u)))"
    by (simp add: scoreDoctor_def Let_def finalScoreOf_def)
qed

theorem scoring_formula_witness:
  "workload (scoreDoctor unevenClinic 0 [''cardiology''] Emergency internist) = 51
   \<and> waitTime (scoreDoctor unevenClinic 0 [''cardiology''] Emergency internist) = 0
   \<and> specializationScore (scoreDoctor unevenClinic 0 [''cardiology''] Emergency internist) = 5
   \<and> finalScore (scoreDoctor unevenClinic 0 [''cardiology''] Emergency internist)
       = 112589990684263 / 1125899906842624
   \<and> finalScoreOf 8 45 Medium 0 = 11"
proof -
  have w: "workload (scoreDoctor unevenClinic 0 [''cardiology''] Emergency internist) = 51"
    by code_simp
  have t: "waitTime (scoreDoctor unevenClinic 0 [''cardiology''] Emergency internist) = 0"
    by code_simp
  have d: "department internist = Some ''internal-medicine''"
      "userSpecializations internist = [''cardiology'']"
    by (simp_all add: internist_def)
  have v: "jsSub (jsMul (jsAdd 51 (jsDiv 0 15)) (3602879701896397 / 36028797018963968)) 5
             = 112589990684263 / 1125899906842624"
    by code_simp
  have b: "finalScoreOf 8 45 Medium 0 = 11" by code_simp
  note f = scoring_formula [of unevenClinic 0 "[''cardiology'']" Emergency internist "''x''"]
  have sc: "specializationScore (scoreDoctor unevenClinic 0 [''cardiology''] Emergency internist) = 5"
    using f d by simp
  from f have fin: "finalScore (scoreDoctor unevenClinic 0 [''cardiology''] Emergency internist) =
       jsSub (jsMul (jsAdd (of_int (workload (scoreDoctor unevenClinic 0 [''cardiology''] Emergency internist)))
                           (jsDiv (of_int (waitTime (scoreDoctor unevenClinic 0 [''cardiology''] Emergency internist))) 15))
                    (priorityMultiplier Emergency))
             (of_int (specializationScore (scoreDoctor unevenClinic 0 [''cardiology''] Emergency internist)))"
    by (elim conjE)
  have fs: "finalScore (scoreDoctor unevenClinic 0 [''cardiology''] Emergency internist)
       = 112589990684263 / 1125899906842624"
    by (simp only: fin w t sc multipliers(1) of_int_numeral of_int_0 v)
  show ?thesis using w t sc fs b by (intro conjI)
qed

subsection \<open>Selection\<close>

text \<open>
  Claim C4, as stated, fails: two candidates share the final score 5, \<open>doctorX\<close> has the
  lesser id, the directory lists \<open>doctorY\<close> first, and \<open>doctorY\<close> is returned.
\<close>

theorem selection_counterexample:
  "userId doctorX < userId doctorY
   \<and> finalScore (scoreDoctor tiedClinic 0 [''cardiology''] Medium doctorX) = 5
   \<and> finalScore (scoreDoctor tiedClinic 0 [''cardiology''] Medium doctorY) = 5
   \<and> availableDoctors tiedClinic [''cardiology''] = Inr [doctorY, doctorX]
   \<and> findBestDoctor tiedClinic 0 [''cardiology''] Medium =
       Inr \<lparr> bestDoctor = doctorY, bestWorkload = 5, estimatedWaitTime = 0,
             specializationMatch = False, matchConfidence = ConfMedium \<rparr>"
proof (intro conjI)
  show "userId doctorX < userId doctorY" by code_simp
  show "finalScore (scoreDoctor tiedClinic 0 [''cardiology''] Medium doctorX) = 5" by code_simp
  show "finalScore (scoreDoctor tiedClinic 0 [''cardiology''] Medium doctorY) = 5" by code_simp
  show "availableDoctors tiedClinic [''cardiology''] = Inr [doctorY, doctorX]" by code_simp
  show "findBestDoctor tiedClinic 0 [''cardiology''] Medium =
       Inr \<lparr> bestDoctor = doctorY, bestWorkload = 5, estimatedWaitTime = 0,
             specializationMatch = False, matchConfidence = ConfMedium \<rparr>" by code_simp
qed

text \<open>
  Claim C4, amended. \<open>findBestDoctor\<close> returns a candidate of minimal final score, and
  among the candidates of minimal score the one the directory listed first: every
  candidate listed before it has a strictly greater score, every candidate listed after
  it a score at least as great.
\<close>

theorem selection_first_minimum:
  assumes "availableDoctors db specs = Inr ds" and "ds \<noteq> []"
  shows "\<exists>r pre post. findBestDoctor db now specs p = Inr r
           \<and> ds = pre @ bestDoctor r # post
           \<and> (\<forall>u \<in> set pre. finalScore (scoreDoctor db now specs p (bestDoctor r))
                               < finalScore (scoreDoctor db now specs p u))
           \<and> (\<forall>u \<in> set post. finalScore (scoreDoctor db now specs p (bestDoctor r))
                                \<le> finalScore (scoreDoctor db now specs p u))"
proof -
  let ?sc = "scoreDoctor db now specs p"
  let ?scores = "map ?sc ds"
  have ne: "?scores \<noteq> []" using assms(2) by simp
  then have "sort_key finalScore ?scores \<noteq> []" by (simp only: sort_key_Nil_iff not_False_eq_True)
  then obtain b bs where srt: "sort_key finalScore ?scores = b # bs"
    by (cases "sort_key finalScore ?scores") simp_all
  then have hd: "hd (sort_key finalScore ?scores) = b" by simp
  from sort_key_first_min [OF ne, of finalScore]
  obtain pre post where pp: "?scores = pre @ b # post"
      "\<forall>y \<in> set pre. finalScore b < finalScore y"
      "\<forall>y \<in> set post. finalScore b \<le> finalScore y"
    unfolding hd by (elim exE conjE)
  from map_eq_split [OF pp(1)]
  obtain dpre d dpost where d: "ds = dpre @ d # dpost" "map ?sc dpre = pre" "?sc d = b"
      "map ?sc dpost = post"
    by (elim exE conjE)
  have "doctor (?sc d) = d" by (simp add: scoreDoctor_def Let_def)
  then have doc: "doctor b = d" by (simp only: d(3))
  let ?r = "\<lparr> bestDoctor = d, bestWorkload = workload b, estimatedWaitTime = waitTime b,
            specializationMatch = (specializationScore b > 0),
            matchConfidence = (if specializationScore b > 5 then ConfHigh else ConfMedium) \<rparr>"
  have len: "length ds \<noteq> 0" using assms(2) by simp
  have "findBestDoctor db now specs p =
          (case sort_key finalScore ?scores of
             [] \<Rightarrow> Inl TypeError
           | bestMatch # _ \<Rightarrow>
               Inr \<lparr> bestDoctor = doctor bestMatch, bestWorkload = workload bestMatch,
                     estimatedWaitTime = waitTime bestMatch,
                     specializationMatch = (specializationScore bestMatch > 0),
                     matchConfidence =
                       (if specializationScore bestMatch > 5 then ConfHigh else ConfMedium) \<rparr>)"
    using len by (simp add: findBestDoctor_def assms(1))
  also have "\<dots> = Inr \<lparr> bestDoctor = doctor b, bestWorkload = workload b,
                     estimatedWaitTime = waitTime b,
                     specializationMatch = (specializationScore b > 0),
                     matchConfidence =
                       (if specializationScore b > 5 then ConfHigh else ConfMedium) \<rparr>"
    by (simp only: srt list.case)
  also have "\<dots> = Inr ?r" by (simp only: doc)
  finally have r: "findBestDoctor db now specs p = Inr ?r" .
  have sel: "bestDoctor ?r = d" by simp
  have lt: "\<forall>u \<in> set dpre. finalScore (?sc d) < finalScore (?sc u)"
  proof
    fix u assume "u \<in> set dpre"
    then have "?sc u \<in> set pre" unfolding d(2) [symmetric] by simp
    then show "finalScore (?sc d) < finalScore (?sc u)" using pp(2) unfolding d(3) by simp
  qed
  have le: "\<forall>u \<in> set dpost. finalScore (?sc d) \<le> finalScore (?sc u)"
  proof
    fix u assume "u \<in> set dpost"
    then have "?sc u \<in> set post" unfolding d(4) [symmetric] by simp
    then show "finalScore (?sc d) \<le> finalScore (?sc u)" using pp(3) unfolding d(3) by simp
  qed
  have "findBestDoctor db now specs p = Inr ?r
           \<and> ds = dpre @ bestDoctor ?r # dpost
           \<and> (\<forall>u \<in> set dpre. finalScore (?sc (bestDoctor ?r)) < finalScore (?sc u))
           \<and> (\<forall>u \<in> set dpost. finalScore (?sc (bestDoctor ?r)) \<le> finalScore (?sc u))"
    unfolding sel using r d(1) lt le by (intro conjI)
  then show ?thesis by (intro exI)
qed

theorem selection_first_minimum_witness:
  "availableDoctors unevenClinic [''cardiology''] = Inr [internist, doctorX]
   \<and> finalScore (scoreDoctor unevenClinic 0 [''cardiology''] Emergency internist)
       = 112589990684263 / 1125899906842624
   \<and> finalScore (scoreDoctor unevenClinic 0 [''cardiology''] Emergency doctorX)
       = 3602879701896397 / 36028797018963968
   \<and> (\<exists>r. findBestDoctor unevenClinic 0 [''cardiology''] Emergency = Inr r
            \<and> bestDoctor r = doctorX)"
proof -
  have av: "availableDoctors unevenClinic [''cardiology''] = Inr [internist, doctorX]"
    by code_simp
  have ne: "[internist, doctorX] \<noteq> []" by simp
  have si: "finalScore (scoreDoctor unevenClinic 0 [''cardiology''] Emergency internist)
       = 112589990684263 / 1125899906842624" by code_simp
  have sx: "finalScore (scoreDoctor unevenClinic 0 [''cardiology''] Emergency doctorX)
       = 3602879701896397 / 36028797018963968" by code_simp
  have lt: "(3602879701896397 / 36028797018963968 :: rat) < 112589990684263 / 1125899906842624"
    by simp
  from selection_first_minimum [OF av ne, of 0 Emergency]
  obtain r pre post where r: "findBestDoctor unevenClinic 0 [''cardiology''] Emergency = Inr r"
      "[internist, doctorX] = pre @ bestDoctor r # post"
      "\<forall>u \<in> set post. finalScore (scoreDoctor unevenClinic 0 [''cardiology''] Emergency (bestDoctor r))
                               \<le> finalScore (scoreDoctor unevenClinic 0 [''cardiology''] Emergency u)"
    by (elim exE conjE)
  have "bestDoctor r = doctorX"
  proof (cases pre)
    case Nil
    then have b: "bestDoctor r = internist" "post = [doctorX]" using r(2) by simp_all
    have "finalScore (scoreDoctor unevenClinic 0 [''cardiology''] Emergency internist)
            \<le> finalScore (scoreDoctor unevenClinic 0 [''cardiology''] Emergency doctorX)"
      using r(3) unfolding b by simp
    then have "(112589990684263 / 1125899906842624 :: rat) \<le> 3602879701896397 / 36028797018963968"
      by (simp only: si sx)
    then show ?thesis using lt by simp
  next
    case (Cons a pre')
    then have "[doctorX] = pre' @ bestDoctor r # post" using r(2) by simp
    then show ?thesis by (cases pre') simp_all
  qed
  then have "\<exists>r. findBestDoctor unevenClinic 0 [''cardiology''] Emergency = Inr r
            \<and> bestDoctor r = doctorX" using r(1) by blast
  then show ?thesis using av si sx by (intro conjI)
qed

subsection \<open>Workload\<close>





subsection \<open>Wait estimate\<close>



subsection \<open>Empty pool\<close>

text \<open>
  Claim C9. When the directory returns no candidate for the analysed symptoms,
  \<open>assignDoctorToPatient\<close> fails with the wrapped no-available-doctors error and leaves
  the database, and with it every stored queue entry and queue number, as it was.
\<close>

theorem empty_pool:
  assumes "availableDoctors db (specializations (analyzeSymptoms s)) = Inr []"
  shows "assignDoctorToPatient db now pid s = (Inl (AssignmentFailed NoAvailableDoctors), db)"
  using assms by (simp add: assignDoctorToPatient_def findBestDoctor_def Let_def)

theorem empty_pool_witness:
  "availableDoctors emptyClinic (specializations (analyzeSymptoms ''fever'')) = Inr []
   \<and> assignDoctorToPatient emptyClinic 0 ''p1'' ''fever''
       = (Inl (AssignmentFailed NoAvailableDoctors), emptyClinic)"
proof -
  have h: "availableDoctors emptyClinic (specializations (analyzeSymptoms ''fever'')) = Inr []"
    by (simp add: availableDoctors_def emptyClinic_def)
  show ?thesis using h empty_pool [OF h, of 0 "''p1''"] by simp
qed

subsection \<open>Sequential numbering\<close>

text \<open>
  Claim C1, as stated, fails: three check-ins of one day are saved one after another and
  receive 1, 2 and 3; the entry numbered 3 is removed; the next check-in of that day
  receives 3 again.
\<close>

theorem sequential_numbering_counterexample:
  "sequential 0 removedThird
   \<and> lastTime 0 removedThird = 8
   \<and> issuedNumbers emptyClinic removedThird = [1, 2, 3, 3]"
proof (intro conjI)
  show "sequential 0 removedThird" by (simp add: removedThird_def checkInEntry_def)
  show "lastTime 0 removedThird = 8" by (simp add: removedThird_def)
  show "issuedNumbers emptyClinic removedThird = [1, 2, 3, 3]" by code_simp
qed

text \<open>
  Claim C1, amended. Saves and removals run one after another on a collection whose
  entries are stored in order and not of a later time (the empty collection is such).
  Then the hook gives the next new document the number 1 when no entry of the day is
  stored, and the highest number among the stored entries of the day plus one otherwise;
  that number is positive and greater than the number of every stored entry of the day;
  and the stored entries keep positive numbers, distinct and increasing within a day in
  the order they were stored.
\<close>

theorem sequential_numbering:
  assumes "sequential t ops" and "storedInOrder (queues db)"
    and "\<forall>q \<in> set (queues db). checkedInAt q \<le> t"
  shows "(\<forall>now doc rej. lastTime t ops \<le> now \<and> QueueFindOne \<notin> rej \<longrightarrow>
           preSave ((runOps db ops)\<lparr>rejects := rej\<rparr>) now True doc
             = Inr (doc\<lparr>queueNumber := nextNumber (queues (runOps db ops)) now\<rparr>)
           \<and> 0 < nextNumber (queues (runOps db ops)) now
           \<and> (\<forall>q \<in> set (queues (runOps db ops)). sameDay (checkedInAt q) now \<longrightarrow>
                 queueNumber q < nextNumber (queues (runOps db ops)) now))
     \<and> storedInOrder (queues (runOps db ops))
     \<and> (\<forall>q \<in> set (queues (runOps db ops)). 0 < queueNumber q)
     \<and> (\<forall>a q1 b q2 c. queues (runOps db ops) = a @ q1 # b @ q2 # c
                        \<and> sameDay (checkedInAt q1) (checkedInAt q2) \<longrightarrow>
           queueNumber q1 < queueNumber q2)"
proof -
  let ?qs = "queues (runOps db ops)"
  from runOps_stored [OF assms]
  have so: "storedInOrder ?qs" and le: "\<forall>q \<in> set ?qs. checkedInAt q \<le> lastTime t ops"
    by simp_all
  have pos: "\<forall>q \<in> set ?qs. 0 < queueNumber q" using so by (rule storedInOrder_positive)
  have inc: "\<And>a q1 b q2 c. ?qs = a @ q1 # b @ q2 # c
                        \<and> sameDay (checkedInAt q1) (checkedInAt q2) \<Longrightarrow>
           queueNumber q1 < queueNumber q2"
  proof -
    fix a q1 b q2 c
    assume h: "?qs = a @ q1 # b @ q2 # c \<and> sameDay (checkedInAt q1) (checkedInAt q2)"
    then have "storedInOrder (a @ q1 # b @ q2 # c)" using so by simp
    then show "queueNumber q1 < queueNumber q2" using h by (intro storedInOrder_split) simp_all
  qed
  have hook: "\<And>now doc rej. lastTime t ops \<le> now \<and> QueueFindOne \<notin> rej \<Longrightarrow>
           preSave ((runOps db ops)\<lparr>rejects := rej\<rparr>) now True doc
             = Inr (doc\<lparr>queueNumber := nextNumber ?qs now\<rparr>)
           \<and> 0 < nextNumber ?qs now
           \<and> (\<forall>q \<in> set ?qs. sameDay (checkedInAt q) now \<longrightarrow> queueNumber q < nextNumber ?qs now)"
  proof -
    fix now doc rej assume h: "lastTime t ops \<le> now \<and> QueueFindOne \<notin> rej"
    have a: "QueueFindOne \<notin> rejects ((runOps db ops)\<lparr>rejects := rej\<rparr>)" using h by simp
    have b: "\<forall>q \<in> set (queues ((runOps db ops)\<lparr>rejects := rej\<rparr>)). checkedInAt q \<le> now"
      using le h by auto
    from preSave_nextNumber [OF a b, of doc]
    have 1: "preSave ((runOps db ops)\<lparr>rejects := rej\<rparr>) now True doc
             = Inr (doc\<lparr>queueNumber := nextNumber ?qs now\<rparr>)" by simp
    have 2: "0 < nextNumber ?qs now" using pos by (rule nextNumber_positive)
    have 3: "\<forall>q \<in> set ?qs. sameDay (checkedInAt q) now \<longrightarrow> queueNumber q < nextNumber ?qs now"
      using nextNumber_greater by blast
    show "preSave ((runOps db ops)\<lparr>rejects := rej\<rparr>) now True doc
             = Inr (doc\<lparr>queueNumber := nextNumber ?qs now\<rparr>)
           \<and> 0 < nextNumber ?qs now
           \<and> (\<forall>q \<in> set ?qs. sameDay (checkedInAt q) now \<longrightarrow> queueNumber q < nextNumber ?qs now)"
      using 1 2 3 by (intro conjI)
  qed
  have A: "\<forall>now doc rej. lastTime t ops \<le> now \<and> QueueFindOne \<notin> rej \<longrightarrow>
           preSave ((runOps db ops)\<lparr>rejects := rej\<rparr>) now True doc
             = Inr (doc\<lparr>queueNumber := nextNumber ?qs now\<rparr>)
           \<and> 0 < nextNumber ?qs now
           \<and> (\<forall>q \<in> set ?qs. sameDay (checkedInAt q) now \<longrightarrow> queueNumber q < nextNumber ?qs now)"
    by (intro allI impI) (rule hook)
  have B: "\<forall>a q1 b q2 c. ?qs = a @ q1 # b @ q2 # c
                        \<and> sameDay (checkedInAt q1) (checkedInAt q2) \<longrightarrow>
           queueNumber q1 < queueNumber q2"
    by (intro allI impI) (rule inc)
  show ?thesis using A so pos B by (intro conjI)
qed

lemma removedThird_queues:
  "queues (runOps emptyClinic removedThird) =
     [(checkInEntry 5 ''p1'' ''staff'' ''cough'')\<lparr>queueNumber := 1\<rparr>,
      (checkInEntry 6 ''p2'' ''staff'' ''fever'')\<lparr>queueNumber := 2\<rparr>,
      (checkInEntry 8 ''p4'' ''staff'' ''cough'')\<lparr>queueNumber := 3\<rparr>]"
  by code_simp

theorem sequential_numbering_witness:
  "sequential 0 removedThird
   \<and> map queueNumber (queues (runOps emptyClinic removedThird)) = [1, 2, 3]
   \<and> preSave ((runOps emptyClinic removedThird)\<lparr>rejects := {}\<rparr>) 9 True
        (checkInEntry 9 ''p5'' ''staff'' ''cough'')
      = Inr ((checkInEntry 9 ''p5'' ''staff'' ''cough'')\<lparr>queueNumber := 4\<rparr>)
   \<and> preSave ((runOps emptyClinic removedThird)\<lparr>rejects := {}\<rparr>) 86400001 True
        (checkInEntry 86400001 ''p6'' ''staff'' ''cough'')
      = Inr ((checkInEntry 86400001 ''p6'' ''staff'' ''cough'')\<lparr>queueNumber := 1\<rparr>)"
proof -
  have s: "sequential 0 removedThird" by (simp add: removedThird_def checkInEntry_def)
  have d: "storedInOrder (queues emptyClinic)" by (simp add: emptyClinic_def)
  have l: "\<forall>q \<in> set (queues emptyClinic). checkedInAt q \<le> 0" by (simp add: emptyClinic_def)
  note main = sequential_numbering [OF s d l]
  have lt: "lastTime 0 removedThird = 8" by (simp add: removedThird_def)
  have n4: "nextNumber (queues (runOps emptyClinic removedThird)) 9 = 4"
    unfolding removedThird_queues by code_simp
  have n1: "nextNumber (queues (runOps emptyClinic removedThird)) 86400001 = 1"
    unfolding removedThird_queues by code_simp
  have ns: "map queueNumber (queues (runOps emptyClinic removedThird)) = [1, 2, 3]"
    unfolding removedThird_queues by simp
  have hook: "\<forall>now doc rej. lastTime 0 removedThird \<le> now \<and> QueueFindOne \<notin> rej \<longrightarrow>
           preSave ((runOps emptyClinic removedThird)\<lparr>rejects := rej\<rparr>) now True doc
             = Inr (doc\<lparr>queueNumber := nextNumber (queues (runOps emptyClinic removedThird)) now\<rparr>)
           \<and> 0 < nextNumber (queues (runOps emptyClinic removedThird)) now
           \<and> (\<forall>q \<in> set (queues (runOps emptyClinic removedThird)). sameDay (checkedInAt q) now \<longrightarrow>
                 queueNumber q < nextNumber (queues (runOps emptyClinic removedThird)) now)"
    using main by (elim conjE)
  have h4: "preSave ((runOps emptyClinic removedThird)\<lparr>rejects := {}\<rparr>) 9 True
        (checkInEntry 9 ''p5'' ''staff'' ''cough'')
      = Inr ((checkInEntry 9 ''p5'' ''staff'' ''cough'')\<lparr>queueNumber := 4\<rparr>)"
    using hook [rule_format, of 9 "{}" "checkInEntry 9 ''p5'' ''staff'' ''cough''"] lt n4 by simp
  have h1: "preSave ((runOps emptyClinic removedThird)\<lparr>rejects := {}\<rparr>) 86400001 True
        (checkInEntry 86400001 ''p6'' ''staff'' ''cough'')
      = Inr ((checkInEntry 86400001 ''p6'' ''staff'' ''cough'')\<lparr>queueNumber := 1\<rparr>)"
    using hook [rule_format, of 86400001 "{}" "checkInEntry 86400001 ''p6'' ''staff'' ''cough''"] lt n1
    by simp
  show ?thesis using s ns h4 h1 by (intro conjI)
qed

subsection \<open>Day rollover\<close>

lemma save_keeps_one:
  assumes "queues db = [] \<or> (\<exists>q \<in> set (queues db). queueNumber q = 1)"
  shows "queues (snd (save db now doc)) = []
         \<or> (\<exists>q \<in> set (queues (snd (save db now doc))). queueNumber q = 1)"
proof -
  from save_cases [of db now doc] show ?thesis
  proof
    assume "queues (snd (save db now doc)) = queues db"
    then show ?thesis using assms by simp
  next
    assume "\<exists>d. preSave db now True doc = Inr d \<and> queues (snd (save db now doc)) = queues db @ [d]"
    then obtain d where d: "preSave db now True doc = Inr d"
        "queues (snd (save db now doc)) = queues db @ [d]" by (elim exE conjE)
    show ?thesis
    proof (cases "queues db = []")
      case True
      then have "queueNumber d = 1" using d(1)
        by (auto simp: preSave_def lastQueue_def split: if_splits)
      then show ?thesis using d(2) by simp
    next
      case False
      then show ?thesis using assms d(2) by auto
    qed
  qed
qed

lemma runOps_keeps_one:
  "savesOnly ops \<Longrightarrow> queues db = [] \<or> (\<exists>q \<in> set (queues db). queueNumber q = 1) \<Longrightarrow>
   queues (runOps db ops) = [] \<or> (\<exists>q \<in> set (queues (runOps db ops)). queueNumber q = 1)"
proof (induction ops arbitrary: db)
  case Nil
  then show ?case by simp
next
  case (Cons op ops)
  show ?case
  proof (cases op)
    case (Save now doc rej)
    have "queues (db\<lparr>rejects := rej\<rparr>) = []
          \<or> (\<exists>q \<in> set (queues (db\<lparr>rejects := rej\<rparr>)). queueNumber q = 1)"
      using Cons.prems(2) by simp
    from save_keeps_one [OF this, of now doc]
    have "queues (runOp db op) = [] \<or> (\<exists>q \<in> set (queues (runOp db op)). queueNumber q = 1)"
      by (simp add: Save)
    moreover have "savesOnly ops" using Cons.prems(1) by (simp add: Save)
    ultimately show ?thesis using Cons.IH by simp
  next
    case (Remove i rej)
    then show ?thesis using Cons.prems(1) by simp
  qed
qed

text \<open>
  Claim C10, as stated, fails: after two check-ins of the first day, the entry numbered 1
  is removed; the first save of the next day receives the number 1 and is stored.
\<close>

theorem rollover_counterexample:
  "map queueNumber (queues (runOps emptyClinic removedFirst)) = [2]
   \<and> map checkedInAt (queues (runOps emptyClinic removedFirst)) = [7]
   \<and> startOfDay 86400001 = 86400000
   \<and> fst (save (runOps emptyClinic removedFirst) 86400001
             (checkInEntry 86400001 ''p3'' ''staff'' ''cough''))
       = Inr ((checkInEntry 86400001 ''p3'' ''staff'' ''cough'')\<lparr>queueNumber := 1\<rparr>)
   \<and> map queueNumber (queues (snd (save (runOps emptyClinic removedFirst) 86400001
             (checkInEntry 86400001 ''p3'' ''staff'' ''cough'')))) = [2, 1]"
proof (intro conjI)
  show "map queueNumber (queues (runOps emptyClinic removedFirst)) = [2]" by code_simp
  show "map checkedInAt (queues (runOps emptyClinic removedFirst)) = [7]" by code_simp
  show "startOfDay 86400001 = 86400000" by (simp add: startOfDay_def msPerDay_def)
  show "fst (save (runOps emptyClinic removedFirst) 86400001
             (checkInEntry 86400001 ''p3'' ''staff'' ''cough''))
       = Inr ((checkInEntry 86400001 ''p3'' ''staff'' ''cough'')\<lparr>queueNumber := 1\<rparr>)"
    by code_simp
  show "map queueNumber (queues (snd (save (runOps emptyClinic removedFirst) 86400001
             (checkInEntry 86400001 ''p3'' ''staff'' ''cough'')))) = [2, 1]" by code_simp
qed

text \<open>
  Claim C10, amended. The index on the queue number is unique over the whole collection,
  while the hook restarts the numbering at 1 each day. On a day of which no entry is
  stored yet, the hook gives the new document the number 1. The save is rejected as a
  duplicate key, and stores nothing, when a stored entry carries the number 1; that is
  the case in every non-empty collection that saves alone built from an empty one. When
  no stored entry carries the number 1, the save stores the document with the number 1.
\<close>

theorem rollover_first_save:
  assumes "\<forall>q \<in> set (queues db). checkedInAt q < startOfDay now"
    and "validateQueue doc" and "QueueFindOne \<notin> rejects db" and "QueueInsert \<notin> rejects db"
  shows "preSave db now True doc = Inr (doc\<lparr>queueNumber := 1\<rparr>)
     \<and> ((\<exists>q \<in> set (queues db). queueNumber q = 1) \<longrightarrow> save db now doc = (Inl DuplicateKey, db))
     \<and> (\<not> (\<exists>q \<in> set (queues db). queueNumber q = 1) \<longrightarrow>
          save db now doc
            = (Inr (doc\<lparr>queueNumber := 1\<rparr>),
               db\<lparr>queues := queues db @ [doc\<lparr>queueNumber := 1\<rparr>]\<rparr>))
     \<and> (\<forall>db0 ops. queues db0 = [] \<and> savesOnly ops \<and> queues (runOps db0 ops) = queues db
                    \<and> queues db \<noteq> [] \<longrightarrow>
          save db now doc = (Inl DuplicateKey, db))"
proof -
  have "filter (\<lambda>q. startOfDay now \<le> checkedInAt q) (queues db) = []"
    using assms(1) by (auto simp: filter_empty_conv)
  then have hook: "preSave db now True doc = Inr (doc\<lparr>queueNumber := 1\<rparr>)"
    using assms(3) by (simp add: preSave_def lastQueue_def)
  have dup: "(\<exists>q \<in> set (queues db). queueNumber q = 1) \<Longrightarrow> save db now doc = (Inl DuplicateKey, db)"
  proof -
    assume one: "\<exists>q \<in> set (queues db). queueNumber q = 1"
    have "insertQueue db (doc\<lparr>queueNumber := 1\<rparr>) = (Inl DuplicateKey, db)"
      using one assms(4) by (simp add: insertQueue_def)
    then show "save db now doc = (Inl DuplicateKey, db)"
      using assms(2) hook by (simp add: save_def)
  qed
  have fresh: "\<not> (\<exists>q \<in> set (queues db). queueNumber q = 1) \<Longrightarrow>
          save db now doc
            = (Inr (doc\<lparr>queueNumber := 1\<rparr>),
               db\<lparr>queues := queues db @ [doc\<lparr>queueNumber := 1\<rparr>]\<rparr>)"
  proof -
    assume none: "\<not> (\<exists>q \<in> set (queues db). queueNumber q = 1)"
    have "insertQueue db (doc\<lparr>queueNumber := 1\<rparr>)
            = (Inr (doc\<lparr>queueNumber := 1\<rparr>),
               db\<lparr>queues := queues db @ [doc\<lparr>queueNumber := 1\<rparr>]\<rparr>)"
      using none assms(4) by (simp add: insertQueue_def)
    then show "save db now doc
            = (Inr (doc\<lparr>queueNumber := 1\<rparr>),
               db\<lparr>queues := queues db @ [doc\<lparr>queueNumber := 1\<rparr>]\<rparr>)"
      using assms(2) hook by (simp add: save_def)
  qed
  have hist: "\<And>db0 ops. queues db0 = [] \<and> savesOnly ops \<and> queues (runOps db0 ops) = queues db
                    \<and> queues db \<noteq> [] \<Longrightarrow> save db now doc = (Inl DuplicateKey, db)"
  proof -
    fix db0 ops
    assume h: "queues db0 = [] \<and> savesOnly ops \<and> queues (runOps db0 ops) = queues db
                    \<and> queues db \<noteq> []"
    have "queues (runOps db0 ops) = []
          \<or> (\<exists>q \<in> set (queues (runOps db0 ops)). queueNumber q = 1)"
      by (rule runOps_keeps_one) (use h in simp_all)
    then have "\<exists>q \<in> set (queues db). queueNumber q = 1" using h by simp
    then show "save db now doc = (Inl DuplicateKey, db)" by (rule dup)
  qed
  have A: "(\<exists>q \<in> set (queues db). queueNumber q = 1) \<longrightarrow> save db now doc = (Inl DuplicateKey, db)"
    by (intro impI) (rule dup)
  have B: "\<not> (\<exists>q \<in> set (queues db). queueNumber q = 1) \<longrightarrow>
          save db now doc
            = (Inr (doc\<lparr>queueNumber := 1\<rparr>),
               db\<lparr>queues := queues db @ [doc\<lparr>queueNumber := 1\<rparr>]\<rparr>)"
    by (intro impI) (rule fresh)
  have C: "\<forall>db0 ops. queues db0 = [] \<and> savesOnly ops \<and> queues (runOps db0 ops) = queues db
                    \<and> queues db \<noteq> [] \<longrightarrow> save db now doc = (Inl DuplicateKey, db)"
    by (intro allI impI) (rule hist)
  show ?thesis using hook A B C by (intro conjI)
qed

lemma firstDay_queues:
  "queues (runOps emptyClinic firstDay) =
     [(checkInEntry 5 ''p1'' ''staff'' ''cough'')\<lparr>queueNumber := 1\<rparr>,
      (checkInEntry 7 ''p2'' ''staff'' ''fever'')\<lparr>queueNumber := 2\<rparr>]"
  by code_simp

lemma firstDay_rejects: "rejects (runOps emptyClinic firstDay) = {}"
  by (simp add: firstDay_def save_def insertQueue_def split: sum.splits)

theorem rollover_first_save_witness:
  "savesOnly firstDay
   \<and> map queueNumber (queues (runOps emptyClinic firstDay)) = [1, 2]
   \<and> map checkedInAt (queues (runOps emptyClinic firstDay)) = [5, 7]
   \<and> startOfDay 86400001 = 86400000
   \<and> save (runOps emptyClinic firstDay) 86400001 (checkInEntry 86400001 ''p3'' ''staff'' ''cough'')
       = (Inl DuplicateKey, runOps emptyClinic firstDay)"
proof -
  let ?db = "runOps emptyClinic firstDay"
  have so: "savesOnly firstDay" by (simp add: firstDay_def)
  have sd: "startOfDay 86400001 = 86400000" by (simp add: startOfDay_def msPerDay_def)
  have h1: "\<forall>q \<in> set (queues ?db). checkedInAt q < startOfDay 86400001"
    unfolding firstDay_queues sd by (simp add: checkInEntry_def)
  have h2: "validateQueue (checkInEntry 86400001 ''p3'' ''staff'' ''cough'')"
    by (simp add: validateQueue_def checkInEntry_def)
  have h3: "QueueFindOne \<notin> rejects ?db" and h4: "QueueInsert \<notin> rejects ?db"
    by (simp_all add: firstDay_rejects)
  have n: "map queueNumber (queues ?db) = [1, 2]" unfolding firstDay_queues by simp
  have c: "map checkedInAt (queues ?db) = [5, 7]"
    unfolding firstDay_queues by (simp add: checkInEntry_def)
  have one: "\<exists>q \<in> set (queues ?db). queueNumber q = 1" unfolding firstDay_queues by simp
  from rollover_first_save [OF h1 h2 h3 h4]
  have "(\<exists>q \<in> set (queues ?db). queueNumber q = 1) \<longrightarrow>
          save ?db 86400001 (checkInEntry 86400001 ''p3'' ''staff'' ''cough'')
            = (Inl DuplicateKey, ?db)"
    by (elim conjE)
  then have "save ?db 86400001 (checkInEntry 86400001 ''p3'' ''staff'' ''cough'')
            = (Inl DuplicateKey, ?db)" using one by blast
  then show ?thesis using so n c sd by (intro conjI)
qed

subsection \<open>Saves in flight together\<close>

text \<open>
  Claim C2 fails on the code: when the hooks of two saves both read the collection before
  either insertion, both documents receive the number 1, and the second insertion is
  rejected by the unique index.
\<close>

theorem interleaved_saves_duplicate:
  "map queueNumber
     (fst (runEvents 5 [Hook 0, Hook 1, Insert 0, Insert 1]
             ([checkInEntry 5 ''p1'' ''staff'' ''cough'', checkInEntry 5 ''p2'' ''staff'' ''fever''],
              emptyClinic))) = [1, 1]
   \<and> map queueNumber
       (queues (snd (runEvents 5 [Hook 0, Hook 1, Insert 0, Insert 1]
             ([checkInEntry 5 ''p1'' ''staff'' ''cough'', checkInEntry 5 ''p2'' ''staff'' ''fever''],
              emptyClinic)))) = [1]"
proof (intro conjI)
  show "map queueNumber
     (fst (runEvents 5 [Hook 0, Hook 1, Insert 0, Insert 1]
             ([checkInEntry 5 ''p1'' ''staff'' ''cough'', checkInEntry 5 ''p2'' ''staff'' ''fever''],
              emptyClinic))) = [1, 1]" by code_simp
  show "map queueNumber
       (queues (snd (runEvents 5 [Hook 0, Hook 1, Insert 0, Insert 1]
             ([checkInEntry 5 ''p1'' ''staff'' ''cough'', checkInEntry 5 ''p2'' ''staff'' ''fever''],
              emptyClinic)))) = [1]" by code_simp
qed

end
